theory Spec2Isabelle
  imports Main "HOL-Library.AList" "HOL-Library.Sublist" "HOL-Library.Word"
begin

section \<open>Message (chatserver/message.go)\<close>

text \<open>
  A Go \<^verbatim>\<open>string\<close> is a byte sequence; it is modelled as a \<^typ>\<open>string\<close>.
  The struct \<^verbatim>\<open>Message\<close> has the fields \<^verbatim>\<open>id\<close>, \<^verbatim>\<open>data\<close> and \<^verbatim>\<open>event\<close>, in this
  order; the first one is written \<open>id'\<close> here because \<open>id\<close> is the identity function of HOL.
\<close>

record Message =
  id' :: string
  data :: string
  event :: string

definition NewMessage :: "string \<Rightarrow> string \<Rightarrow> string \<Rightarrow> Message" where
  "NewMessage i d e = \<lparr>id' = i, data = d, event = e\<rparr>"

definition TextMessage :: "string \<Rightarrow> string \<Rightarrow> Message" where
  "TextMessage i d = NewMessage i d ''msg''"

definition TimeoutMessage :: "string \<Rightarrow> string \<Rightarrow> Message" where
  "TimeoutMessage i d = NewMessage i d ''timeout''"

text \<open>The line feed, Go's \<^verbatim>\<open>"\n"\<close>.\<close>

definition LF :: char where
  "LF = CHR 0x0A"

text \<open>
  \<^verbatim>\<open>strings.Replace(s, old, new, -1)\<close> for a non-empty \<open>old\<close>: every occurrence of \<open>old\<close>,
  found from the left and without overlap, is replaced by \<open>new\<close>. (With an empty \<open>old\<close> the
  library inserts \<open>new\<close> around every rune; \<^verbatim>\<open>Serialize\<close>, the only caller, passes
  \<^verbatim>\<open>"\n"\<close>, and that case is left as the identity here.)
\<close>

function strings_Replace :: "string \<Rightarrow> string \<Rightarrow> string \<Rightarrow> string" where
  "strings_Replace [] old new = []"
| "strings_Replace (c # cs) old new =
     (if old \<noteq> [] \<and> prefix old (c # cs)
      then new @ strings_Replace (drop (length old) (c # cs)) old new
      else c # strings_Replace cs old new)"
  by pat_completeness auto
termination
  by (relation "measure (\<lambda>(s, old, new). length s)") (auto simp: Suc_le_eq)

text \<open>
  \<^verbatim>\<open>Serialize\<close>: the three \<^verbatim>\<open>if len(...) > 0\<close> blocks write into a builder, then the
  closing line feed is written. \<^verbatim>\<open>fmt.Sprintf("id: %s\n", m.id)\<close> is the concatenation.
\<close>

definition Serialize :: "Message \<Rightarrow> string" where
  "Serialize m =
     (if length (id' m) > 0 then ''id: '' @ id' m @ [LF] else [])
     @ (if length (event m) > 0 then ''event: '' @ event m @ [LF] else [])
     @ (if length (data m) > 0
        then ''data: '' @ strings_Replace (data m) [LF] (LF # ''data: '') @ [LF]
        else [])
     @ [LF]"

text \<open>
  The wording of the specification, for comparison with \<^const>\<open>Serialize\<close>: the payload is
  split on line breaks (as \<^verbatim>\<open>strings.Split\<close> does: \<open>n\<close> line feeds give \<open>n + 1\<close> pieces,
  some of them possibly empty) and every piece becomes one \<^verbatim>\<open>data: \<close> line.
\<close>

fun split_lines :: "string \<Rightarrow> string list" where
  "split_lines [] = [Nil]"
| "split_lines (c # cs) =
     (if c = LF then [] # split_lines cs
      else (case split_lines cs of l # ls \<Rightarrow> (c # l) # ls | [] \<Rightarrow> [c] # []))"

definition data_lines :: "string \<Rightarrow> string" where
  "data_lines d = concat (map (\<lambda>l. ''data: '' @ l @ [LF]) (split_lines d))"

section \<open>Client (chatserver/client.go)\<close>

text \<open>
  Go panics are values of the model: every operation that can panic returns a sum, with
  the panic on the left.
\<close>

datatype panic = CloseOfClosedChannel | SendOnClosedChannel | NilDereference

datatype chanstate = Open | Closed

text \<open>
  \<^verbatim>\<open>close(ch)\<close>: closing a closed channel panics.
\<close>

definition close_chan :: "chanstate \<Rightarrow> panic + chanstate" where
  "close_chan st = (if st = Closed then Inl CloseOfClosedChannel else Inr Closed)"

text \<open>
  The delivery channel \<^verbatim>\<open>messages chan *Message\<close> is unbuffered and has one reader, the
  HTTP handler of the client. The model keeps its state and the messages the reader has
  taken from it, in order. A send is modelled as completed by the reader at once; that a
  send blocks while the reader is busy is scheduling and is not modelled.
\<close>

record chan =
  state :: chanstate
  received :: "Message list"

text \<open>
  \<^verbatim>\<open>*time.Timer\<close>: the field is \<^verbatim>\<open>nil\<close> (\<open>None\<close>) after \<^verbatim>\<open>NewClient\<close>.
  \<^verbatim>\<open>Stop\<close> keeps a running timer from firing and does nothing to a timer that has
  fired or has been stopped.
\<close>

datatype Timer = Running | Stopped | Fired

fun Timer_Stop :: "Timer \<Rightarrow> Timer" where
  "Timer_Stop Running = Stopped"
| "Timer_Stop Stopped = Stopped"
| "Timer_Stop Fired = Fired"

record Client =
  topic :: string
  connectedAt :: int
  messages :: chan
  timer :: "Timer option"

text \<open>
  A \<^verbatim>\<open>*Client\<close> is a reference into a store of client objects: the same client is
  reachable from the subscriber set of its topic and from its HTTP handler, and both close
  its channel. A reference that is not in the store stands for \<^verbatim>\<open>nil\<close>.
\<close>

type_synonym ClientRef = nat

type_synonym ClientStore = "(ClientRef \<times> Client) list"

definition fresh_ref :: "ClientStore \<Rightarrow> ClientRef" where
  "fresh_ref h = Suc (fold max (map fst h) 0)"

text \<open>\<^verbatim>\<open>NewClient(topic)\<close>; the clock reading \<^verbatim>\<open>time.Now()\<close> is a parameter.\<close>

definition NewClient :: "string \<Rightarrow> int \<Rightarrow> ClientStore \<Rightarrow> ClientRef \<times> ClientStore" where
  "NewClient tp now h =
     (fresh_ref h,
      AList.update (fresh_ref h)
        \<lparr>topic = tp, connectedAt = now, messages = \<lparr>state = Open, received = []\<rparr>,
         timer = None\<rparr> h)"

text \<open>\<^verbatim>\<open>c.messages <- message\<close>: a send on a closed channel panics.\<close>

definition Client_SendMessage :: "ClientRef \<Rightarrow> Message \<Rightarrow> ClientStore \<Rightarrow> panic + ClientStore" where
  "Client_SendMessage c m h =
     (case map_of h c of
        None \<Rightarrow> Inl NilDereference
      | Some cl \<Rightarrow>
          if state (messages cl) = Closed then Inl SendOnClosedChannel
          else Inr (AList.update c
                 (cl\<lparr>messages := (messages cl)\<lparr>received := received (messages cl) @ [m]\<rparr>\<rparr>) h))"

definition Client_GetTopic :: "ClientRef \<Rightarrow> ClientStore \<Rightarrow> panic + string" where
  "Client_GetTopic c h = (case map_of h c of None \<Rightarrow> Inl NilDereference | Some cl \<Rightarrow> Inr (topic cl))"

text \<open>
  \<^verbatim>\<open>Client.Unsubscribe\<close>: stop the timer when there is one, then close the channel. The
  variant of client.go without the timer field is the case \<open>timer = None\<close>.
\<close>

definition Client_Unsubscribe :: "ClientRef \<Rightarrow> ClientStore \<Rightarrow> panic + ClientStore" where
  "Client_Unsubscribe c h =
     (case map_of h c of
        None \<Rightarrow> Inl NilDereference
      | Some cl \<Rightarrow>
          (case close_chan (state (messages cl)) of
             Inl e \<Rightarrow> Inl e
           | Inr st \<Rightarrow>
               Inr (AList.update c
                 (cl\<lparr>timer := map_option Timer_Stop (timer cl),
                     messages := (messages cl)\<lparr>state := st\<rparr>\<rparr>) h)))"

section \<open>Topic (chatserver/topic.go)\<close>

text \<open>
  \<^verbatim>\<open>clients map[*Client]bool\<close> is an association list with the operations of
  \<open>HOL-Library.AList\<close>; the order of the list is the order in which \<^verbatim>\<open>range\<close>
  visits the map (Go leaves that order open). The mutex is not modelled: the operations
  run one after the other.
\<close>

record Topic =
  name :: string
  clients :: "(ClientRef \<times> bool) list"

definition NewTopic :: "string \<Rightarrow> Topic" where
  "NewTopic n = \<lparr>name = n, clients = []\<rparr>"

definition Topic_Subscribe :: "Topic \<Rightarrow> ClientRef \<Rightarrow> Topic" where
  "Topic_Subscribe t c = t\<lparr>clients := AList.update c True (clients t)\<rparr>"

text \<open>
  \<^verbatim>\<open>Topic.Unsubscribe\<close>: the entry is set to \<^verbatim>\<open>false\<close> and deleted, then
  \<^verbatim>\<open>client.Unsubscribe()\<close> runs, whether the client was in the map or not. A panic of the
  latter ends the program; the result is then the panic alone.
\<close>

definition Topic_Unsubscribe :: "Topic \<Rightarrow> ClientRef \<Rightarrow> ClientStore \<Rightarrow> panic + (Topic \<times> ClientStore)" where
  "Topic_Unsubscribe t c h =
     (let t' = t\<lparr>clients := AList.delete c (AList.update c False (clients t))\<rparr>
      in case Client_Unsubscribe c h of
           Inl e \<Rightarrow> Inl e
         | Inr h' \<Rightarrow> Inr (t', h'))"

fun Topic_SendMessage_loop :: "(ClientRef \<times> bool) list \<Rightarrow> Message \<Rightarrow> ClientStore \<Rightarrow> panic + ClientStore" where
  "Topic_SendMessage_loop [] m h = Inr h"
| "Topic_SendMessage_loop ((c, opn) # cs) m h =
     (if opn
      then (case Client_SendMessage c m h of
              Inl e \<Rightarrow> Inl e
            | Inr h' \<Rightarrow> Topic_SendMessage_loop cs m h')
      else Topic_SendMessage_loop cs m h)"

definition Topic_SendMessage :: "Topic \<Rightarrow> Message \<Rightarrow> ClientStore \<Rightarrow> panic + ClientStore" where
  "Topic_SendMessage t m h = Topic_SendMessage_loop (clients t) m h"

definition Topic_SubscriptionsCount :: "Topic \<Rightarrow> nat" where
  "Topic_SubscriptionsCount t = length (clients t)"

definition Topic_HasSubscribers :: "Topic \<Rightarrow> bool" where
  "Topic_HasSubscribers t = (Topic_SubscriptionsCount t > 0)"

text \<open>
  \<^verbatim>\<open>Topic.Destroy\<close> ranges over the map while \<^verbatim>\<open>Unsubscribe\<close> deletes the entry just
  visited, which Go allows; the loop runs over the keys present when it starts.
\<close>

fun Topic_Destroy_loop :: "ClientRef list \<Rightarrow> Topic \<Rightarrow> ClientStore \<Rightarrow> panic + (Topic \<times> ClientStore)" where
  "Topic_Destroy_loop [] t h = Inr (t, h)"
| "Topic_Destroy_loop (c # cs) t h =
     (case Topic_Unsubscribe t c h of
        Inl e \<Rightarrow> Inl e
      | Inr (t', h') \<Rightarrow> Topic_Destroy_loop cs t' h')"

definition Topic_Destroy :: "Topic \<Rightarrow> ClientStore \<Rightarrow> panic + (Topic \<times> ClientStore)" where
  "Topic_Destroy t h = Topic_Destroy_loop (map fst (clients t)) t h"

section \<open>Server (chatserver/server.go)\<close>

text \<open>
  \<^verbatim>\<open>strconv.Itoa\<close> and the \<^verbatim>\<open>%d\<close> verb: the decimal digits, with a minus sign for a
  negative number.
\<close>

fun Itoa_nat :: "nat \<Rightarrow> string" where
  "Itoa_nat n =
     (if n < 10 then [''0123456789'' ! n]
      else Itoa_nat (n div 10) @ [''0123456789'' ! (n mod 10)])"

declare Itoa_nat.simps [simp del]

definition Itoa :: "int \<Rightarrow> string" where
  "Itoa i = (if i < 0 then CHR ''-'' # Itoa_nat (nat (- i)) else Itoa_nat (nat i))"

text \<open>The \<^verbatim>\<open>'%s'\<close> of the log formats: the argument between two apostrophes.\<close>

definition quoted :: "string \<Rightarrow> string" where
  "quoted x = CHR 0x27 # x @ [CHR 0x27]"

text \<open>
  The struct \<^verbatim>\<open>Server\<close>. The three channels of the event loop carry no data of interest
  and are kept as open or closed. \<^verbatim>\<open>lastMessageId\<close> is a Go \<^verbatim>\<open>int\<close>, 64 bits wide on
  the platform of the Dockerfile: a word whose signed value is the id. \<^verbatim>\<open>logger\<close> is the
  list of the lines written so far. The mutex is not modelled. The last field, \<open>store\<close>, is
  not a field of the struct: it holds the client objects that the \<^verbatim>\<open>*Client\<close> references
  of the topics point to. A \<^verbatim>\<open>*Topic\<close> is reachable through the registry alone (and
  through a local variable while a handler runs), so the registry holds the topics
  themselves, and a handler that changes a topic replaces the entry under its key.
  Entries are added by \<^verbatim>\<open>createTopic\<close> and removed by \<^verbatim>\<open>destroyTopic\<close> alone.
\<close>

record Server =
  topics :: "(string \<times> Topic) list"
  clientConnected :: chanstate
  clientDisconnected :: chanstate
  serverShutdown :: chanstate
  lastMessageId :: "64 word"
  logger :: "string list"
  store :: ClientStore

definition NewServer :: Server where
  "NewServer =
     \<lparr>topics = [], clientConnected = Open, clientDisconnected = Open, serverShutdown = Open,
      lastMessageId = 0, logger = [], store = []\<rparr>"

text \<open>\<^verbatim>\<open>s.logger.Printf\<close> and \<^verbatim>\<open>s.logger.Print\<close>, with the line already formatted.\<close>

definition Printf :: "string \<Rightarrow> Server \<Rightarrow> Server" where
  "Printf line s = s\<lparr>logger := logger s @ [line]\<rparr>"

definition createTopic :: "string \<Rightarrow> Server \<Rightarrow> Topic \<times> Server" where
  "createTopic n s =
     (let tp = NewTopic n;
          s1 = s\<lparr>topics := AList.update (name tp) tp (topics s)\<rparr>
      in (tp, Printf (''topic '' @ quoted (name tp) @ '' created.'') s1))"

definition getTopic :: "Server \<Rightarrow> string \<Rightarrow> Topic option" where
  "getTopic s n = map_of (topics s) n"

definition destroyTopic :: "Topic \<Rightarrow> Server \<Rightarrow> panic + Server" where
  "destroyTopic tp s =
     (let s1 = s\<lparr>topics := AList.delete (name tp) (topics s)\<rparr>
      in case Topic_Destroy tp (store s1) of
           Inl e \<Rightarrow> Inl e
         | Inr (tp', h') \<Rightarrow>
             Inr (Printf (''topic '' @ quoted (name tp') @ '' destroyed.'') (s1\<lparr>store := h'\<rparr>)))"

text \<open>
  \<^verbatim>\<open>destroyTopics\<close> ranges over the registry while \<^verbatim>\<open>destroyTopic\<close> deletes the entry
  just visited; the loop runs over the topics present when it starts.
\<close>

fun destroyTopics_loop :: "Topic list \<Rightarrow> Server \<Rightarrow> panic + Server" where
  "destroyTopics_loop [] s = Inr s"
| "destroyTopics_loop (tp # tps) s =
     (case destroyTopic tp s of
        Inl e \<Rightarrow> Inl e
      | Inr s' \<Rightarrow> destroyTopics_loop tps s')"

definition destroyTopics :: "Server \<Rightarrow> panic + Server" where
  "destroyTopics s = destroyTopics_loop (map snd (topics s)) s"

text \<open>
  \<^verbatim>\<open>generateMessageId\<close>: the increment wraps as Go's \<^verbatim>\<open>int\<close> does. The new id is
  returned with the server.
\<close>

definition generateMessageId :: "Server \<Rightarrow> 64 word \<times> Server" where
  "generateMessageId s = (lastMessageId s + 1, s\<lparr>lastMessageId := lastMessageId s + 1\<rparr>)"

text \<open>
  \<^verbatim>\<open>sendToTopic\<close> of server.go.
\<close>

definition sendToTopic :: "string \<Rightarrow> Message \<Rightarrow> Server \<Rightarrow> panic + Server" where
  "sendToTopic topicName m s =
     (case getTopic s topicName of
        Some tp \<Rightarrow>
          (case Topic_SendMessage tp m (store s) of
             Inl e \<Rightarrow> Inl e
           | Inr h' \<Rightarrow>
               Inr (Printf (''message sent to topic '' @ quoted topicName @ ''.'')
                      (s\<lparr>store := h'\<rparr>)))
      | None \<Rightarrow>
          Inr (Printf (''message not sent because topic '' @ quoted topicName
                       @ '' has no subscriptions.'') s))"

text \<open>
  \<^verbatim>\<open>handlePostMessage\<close> of server.go, from the topic name taken from the path and the body
  read without error. The model returns what the handler answers: status 400 for an empty
  topic name, and otherwise status 204 together with the value of the local
  \<^verbatim>\<open>nextMessageId\<close>, so that the ids issued can be spoken about. This variant hands the
  \<^verbatim>\<open>int\<close> itself to \<^verbatim>\<open>TextMessage\<close>; the only \<^verbatim>\<open>Message\<close> in the repository keeps the
  id as a string, and the id is converted with \<^verbatim>\<open>strconv.Itoa\<close>, as the log line of the
  handler and \<^verbatim>\<open>sendMessageToTopic\<close> do.
\<close>

datatype PostResult = BadRequest | NoContent "64 word"

definition handlePostMessage :: "string \<Rightarrow> string \<Rightarrow> Server \<Rightarrow> panic + (PostResult \<times> Server)" where
  "handlePostMessage topicName body s =
     (if topicName = [] then Inr (BadRequest, s)
      else
        (let (nextMessageId, s1) = generateMessageId s;
             s2 = Printf (''sending message '' @ quoted body @ '' with id ''
                          @ Itoa (sint nextMessageId) @ '' to topic '' @ quoted topicName) s1
         in case sendToTopic topicName (TextMessage (Itoa (sint nextMessageId)) body) s2 of
              Inl e \<Rightarrow> Inl e
            | Inr s3 \<Rightarrow> Inr (NoContent nextMessageId, s3)))"

text \<open>
  \<^verbatim>\<open>sendMessageToTopic\<close>, the publish path of the other variant of the server (the copy
  of server.go whose \<^verbatim>\<open>processMessages\<close> loop takes the requests from the
  \<^verbatim>\<open>messageReceived\<close> channel): the topic is looked up first, and an id is generated only
  when the topic exists. The model returns the id generated, if any.
\<close>

definition sendMessageToTopic :: "string \<Rightarrow> string \<Rightarrow> Server \<Rightarrow> panic + (64 word option \<times> Server)" where
  "sendMessageToTopic topicName body s =
     (case getTopic s topicName of
        Some tp \<Rightarrow>
          (let (nextMessageId, s1) = generateMessageId s
           in case Topic_SendMessage tp (TextMessage (Itoa (sint nextMessageId)) body) (store s1) of
                Inl e \<Rightarrow> Inl e
              | Inr h' \<Rightarrow>
                  Inr (Some nextMessageId,
                       Printf (''sent message '' @ quoted body @ '' with id ''
                               @ Itoa (sint nextMessageId) @ '' to topic '' @ quoted topicName)
                         (s1\<lparr>store := h'\<rparr>)))
      | None \<Rightarrow>
          Inr (None,
               Printf (''message not sent because topic '' @ quoted topicName
                       @ '' has no subscriptions.'') s))"

text \<open>
  \<^verbatim>\<open>onClientConnected\<close>. \<^verbatim>\<open>c.topic\<close> dereferences the client. \<^verbatim>\<open>Subscribe\<close>
  changes the topic object that the handler holds, which is the object the registry holds
  under the key \<^verbatim>\<open>c.topic\<close>: the entry under that key is replaced by the changed
  topic. The handler itself adds no entry (\<open>map_entry\<close> changes an entry that is there and
  does nothing otherwise); only \<^verbatim>\<open>createTopic\<close> does.
\<close>

definition onClientConnected :: "ClientRef \<Rightarrow> Server \<Rightarrow> panic + Server" where
  "onClientConnected c s =
     (case map_of (store s) c of
        None \<Rightarrow> Inl NilDereference
      | Some cl \<Rightarrow>
          (let (tp, s1) = (case getTopic s (topic cl) of
                             Some tp \<Rightarrow> (tp, s)
                           | None \<Rightarrow> createTopic (topic cl) s);
               tp' = Topic_Subscribe tp c;
               s2 = s1\<lparr>topics := AList.map_entry (topic cl) (\<lambda>_. tp') (topics s1)\<rparr>
           in Inr (Printf (''client subscribed to topic '' @ quoted (name tp') @ ''.'') s2)))"

text \<open>
  \<^verbatim>\<open>onClientDisconnected\<close> of server.go. (The other variant differs in one respect: it
  logs \<^verbatim>\<open>Topic does not exist\<close> when the topic is not registered.)
\<close>

definition onClientDisconnected :: "ClientRef \<Rightarrow> Server \<Rightarrow> panic + Server" where
  "onClientDisconnected c s =
     (case map_of (store s) c of
        None \<Rightarrow> Inl NilDereference
      | Some cl \<Rightarrow>
          (case getTopic s (topic cl) of
             None \<Rightarrow> Inr s
           | Some tp \<Rightarrow>
               (case Topic_Unsubscribe tp c (store s) of
                  Inl e \<Rightarrow> Inl e
                | Inr (tp', h') \<Rightarrow>
                    (let s1 = Printf (''client unsubscribed from topic '' @ quoted (name tp') @ ''.'')
                                (s\<lparr>topics := AList.map_entry (topic cl) (\<lambda>_. tp') (topics s),
                                   store := h'\<rparr>)
                     in if \<not> Topic_HasSubscribers tp'
                        then destroyTopic tp'
                               (Printf (''topic '' @ quoted (name tp')
                                        @ '' has no clients subscribed, destroying.'') s1)
                        else Inr s1))))"

text \<open>
  \<^verbatim>\<open>onServerShutdown\<close>: all topics are destroyed, then the three channels are closed.
\<close>

definition onServerShutdown :: "Server \<Rightarrow> panic + Server" where
  "onServerShutdown s =
     (case destroyTopics s of
        Inl e \<Rightarrow> Inl e
      | Inr s1 \<Rightarrow>
          (case close_chan (clientConnected s1) of
             Inl e \<Rightarrow> Inl e
           | Inr cc \<Rightarrow>
               (case close_chan (clientDisconnected s1) of
                  Inl e \<Rightarrow> Inl e
                | Inr cd \<Rightarrow>
                    (case close_chan (serverShutdown s1) of
                       Inl e \<Rightarrow> Inl e
                     | Inr ss \<Rightarrow>
                         Inr (Printf ''server stopped.''
                                (s1\<lparr>clientConnected := cc, clientDisconnected := cd,
                                    serverShutdown := ss\<rparr>))))))"

text \<open>
  \<^verbatim>\<open>listen\<close>, the event loop: it takes one event after the other from the three
  channels and returns after the shutdown; the events still in the list are then never
  received.
\<close>

datatype event = ClientConnected ClientRef | ClientDisconnected ClientRef | ServerShutdown

fun listen_loop :: "event list \<Rightarrow> Server \<Rightarrow> panic + Server" where
  "listen_loop [] s = Inr s"
| "listen_loop (ClientConnected c # es) s =
     (case onClientConnected c s of Inl e \<Rightarrow> Inl e | Inr s' \<Rightarrow> listen_loop es s')"
| "listen_loop (ClientDisconnected c # es) s =
     (case onClientDisconnected c s of Inl e \<Rightarrow> Inl e | Inr s' \<Rightarrow> listen_loop es s')"
| "listen_loop (ServerShutdown # es) s = onServerShutdown s"

definition listen :: "event list \<Rightarrow> Server \<Rightarrow> panic + Server" where
  "listen es s = listen_loop es (Printf ''server started.'' s)"

text \<open>
  The sending side of the three channels, as the callers of the event loop see it:
  \<^verbatim>\<open>s.clientConnected <- client\<close> and \<^verbatim>\<open>s.clientDisconnected <- client\<close> in
  \<^verbatim>\<open>handleGetMessages\<close> and \<^verbatim>\<open>s.serverShutdown <- true\<close> in \<^verbatim>\<open>Shutdown\<close>. A send on a
  closed channel panics in the sender; a send on an open channel is taken by the event
  loop, which runs the handler of the event.
\<close>

definition send_clientConnected :: "ClientRef \<Rightarrow> Server \<Rightarrow> panic + Server" where
  "send_clientConnected c s =
     (if clientConnected s = Closed then Inl SendOnClosedChannel else onClientConnected c s)"

definition send_clientDisconnected :: "ClientRef \<Rightarrow> Server \<Rightarrow> panic + Server" where
  "send_clientDisconnected c s =
     (if clientDisconnected s = Closed then Inl SendOnClosedChannel else onClientDisconnected c s)"

definition Shutdown :: "Server \<Rightarrow> panic + Server" where
  "Shutdown s =
     (if serverShutdown s = Closed then Inl SendOnClosedChannel else onServerShutdown s)"

text \<open>
  \<^verbatim>\<open>onClientTimeout\<close> of server.go, run by the timer of the client. The elapsed time is
  read from the clock and rounded in floating point
  (\<^verbatim>\<open>math.RoundToEven(duration.Seconds())\<close>); neither is modelled, and the rounded number
  of seconds is a parameter. The handler logs through the package \<^verbatim>\<open>log\<close>, not through
  \<^verbatim>\<open>s.logger\<close>. As in \<^verbatim>\<open>handlePostMessage\<close>, the id is handed over as an \<^verbatim>\<open>int\<close>
  and converted here.
\<close>

definition onClientTimeout :: "int \<Rightarrow> ClientRef \<Rightarrow> Server \<Rightarrow> panic + Server" where
  "onClientTimeout elapsedTimeInSeconds c s =
     (let (nextMessageId, s1) = generateMessageId s
      in case Client_SendMessage c
                (TimeoutMessage (Itoa (sint nextMessageId)) (Itoa elapsedTimeInSeconds @ ''s''))
                (store s1) of
           Inl e \<Rightarrow> Inl e
         | Inr h' \<Rightarrow> send_clientDisconnected c (s1\<lparr>store := h'\<rparr>))"



section \<open>The subscribers as the specification counts them\<close>

text \<open>
  The wording of the specification, for comparison with the registry the code keeps: the
  subscribers after a sequence of events are the clients that have connected and have not
  disconnected since, and the subscriber count of a topic name is the number of those
  whose \<^verbatim>\<open>topic\<close> field is that name. \<open>topic_of\<close> reads the field through a reference.
\<close>

fun spec_subscribers :: "event list \<Rightarrow> ClientRef list \<Rightarrow> ClientRef list" where
  "spec_subscribers [] A = A"
| "spec_subscribers (ClientConnected c # es) A = spec_subscribers es (List.insert c A)"
| "spec_subscribers (ClientDisconnected c # es) A = spec_subscribers es (removeAll c A)"
| "spec_subscribers (ServerShutdown # es) A = []"

definition topic_of :: "ClientStore \<Rightarrow> ClientRef \<Rightarrow> string option" where
  "topic_of h c = map_option topic (map_of h c)"

definition spec_subscriber_count :: "ClientStore \<Rightarrow> event list \<Rightarrow> string \<Rightarrow> nat" where
  "spec_subscriber_count h es n = length (filter (\<lambda>c. topic_of h c = Some n) (spec_subscribers es []))"

text \<open>
  The sequences in which every client is connected once, with a client object that
  exists, and is disconnected at most once, while it is subscribed. \<open>A\<close> lists the
  subscribers as \<open>spec_subscribers\<close> does, \<open>U\<close> the clients that have connected so far.
  (\<^verbatim>\<open>handleGetMessages\<close> creates a new client for every request and sends it on
  \<^verbatim>\<open>clientConnected\<close> once; a timeout followed by the end of the request sends it on
  \<^verbatim>\<open>clientDisconnected\<close> twice, which is a sequence outside this set.)
\<close>

fun wellformed :: "ClientStore \<Rightarrow> event list \<Rightarrow> ClientRef list \<Rightarrow> ClientRef list \<Rightarrow> bool" where
  "wellformed h [] A U = True"
| "wellformed h (ClientConnected c # es) A U =
     (c \<notin> set U \<and> map_of h c \<noteq> None \<and> wellformed h es (List.insert c A) (c # U))"
| "wellformed h (ClientDisconnected c # es) A U =
     (c \<in> set A \<and> wellformed h es (removeAll c A) U)"
| "wellformed h (ServerShutdown # es) A U = False"

text \<open>The client object that \<^verbatim>\<open>NewClient\<close> allocates, with the clock at 0.\<close>

definition fresh_client :: "string \<Rightarrow> Client" where
  "fresh_client n = \<lparr>topic = n, connectedAt = 0, messages = \<lparr>state = Open, received = []\<rparr>, timer = None\<rparr>"

text \<open>
  Two observers of the state, for the statements about shutdown: the state of the delivery
  channel behind a client reference, and the clients in the subscriber sets of all
  registered topics.
\<close>

definition chan_state_of :: "ClientStore \<Rightarrow> ClientRef \<Rightarrow> chanstate option" where
  "chan_state_of h c = map_option (\<lambda>cl. state (messages cl)) (map_of h c)"

definition all_subscribers :: "Server \<Rightarrow> ClientRef list" where
  "all_subscribers s = concat (map (\<lambda>(n, tp). map fst (clients tp)) (topics s))"

section \<open>Properties of Message\<close>

lemma split_lines_nonempty: "split_lines s \<noteq> []"
  by (induction s) (auto split: list.splits)

lemma strings_Replace_LF_Cons:
  "strings_Replace (c # cs) [LF] new =
     (if c = LF then new @ strings_Replace cs [LF] new else c # strings_Replace cs [LF] new)"
  by simp

lemma data_lines_Replace:
  "''data: '' @ strings_Replace d [LF] (LF # ''data: '') @ [LF] = data_lines d"
proof (induction d)
  case Nil
  show ?case by (simp add: data_lines_def)
next
  case (Cons c cs)
  obtain l ls where sp: "split_lines cs = l # ls"
    using split_lines_nonempty [of cs] by (cases "split_lines cs") auto
  from Cons sp have IH:
    "strings_Replace cs [LF] (LF # ''data: '') @ [LF]
       = l @ [LF] @ concat (map (\<lambda>l. ''data: '' @ l @ [LF]) ls)"
    by (simp add: data_lines_def)
  show ?case
  proof (cases "c = LF")
    case True
    with IH sp show ?thesis
      by (simp only: strings_Replace_LF_Cons data_lines_def) simp
  next
    case False
    with IH sp show ?thesis
      by (simp only: strings_Replace_LF_Cons data_lines_def) simp
  qed
qed

lemma Serialize_text_example:
  "Serialize (TextMessage ''7'' (''a'' @ [LF] @ ''b''))
     = ''id: 7'' @ [LF] @ ''event: msg'' @ [LF] @ ''data: a'' @ [LF] @ ''data: b'' @ [LF] @ [LF]"
  by (simp add: Serialize_def TextMessage_def NewMessage_def LF_def)

text \<open>
  C3, as the code has it. \<^verbatim>\<open>Serialize\<close> writes an \<^verbatim>\<open>id:\<close> line when the id is not
  empty, an \<^verbatim>\<open>event:\<close> line when the event is not empty, then, when the payload is not
  empty, one \<^verbatim>\<open>data: \<close> line for every piece of the payload split on line feeds (at
  least one line; an empty piece gives an empty \<^verbatim>\<open>data: \<close> line), and no \<^verbatim>\<open>data:\<close>
  line at all when the payload is empty; one line feed closes the block. The text message
  with id \<^verbatim>\<open>7\<close> and payload \<^verbatim>\<open>a\nb\<close> serializes to
  \<^verbatim>\<open>id: 7\nevent: msg\ndata: a\ndata: b\n\n\<close>: the event of a text message is \<^verbatim>\<open>msg\<close>.
\<close>

theorem Serialize_block:
  "Serialize m =
     (if id' m = [] then [] else ''id: '' @ id' m @ [LF])
     @ (if event m = [] then [] else ''event: '' @ event m @ [LF])
     @ (if data m = [] then [] else data_lines (data m))
     @ [LF]
   \<and> split_lines (data m) \<noteq> []
   \<and> split_lines (''a'' @ [LF] @ [LF] @ ''b'') = [''a'', [], ''b'']
   \<and> Serialize (TextMessage ''7'' (''a'' @ [LF] @ ''b''))
       = ''id: 7'' @ [LF] @ ''event: msg'' @ [LF] @ ''data: a'' @ [LF] @ ''data: b'' @ [LF] @ [LF]"
proof -
  have "Serialize m =
     (if id' m = [] then [] else ''id: '' @ id' m @ [LF])
     @ (if event m = [] then [] else ''event: '' @ event m @ [LF])
     @ (if data m = [] then [] else data_lines (data m))
     @ [LF]"
    unfolding Serialize_def using data_lines_Replace [of "data m"] by simp
  moreover have "split_lines (''a'' @ [LF] @ [LF] @ ''b'') = [''a'', [], ''b'']"
    by (simp add: LF_def)
  ultimately show ?thesis
    using split_lines_nonempty [of "data m"] Serialize_text_example by blast
qed

theorem Serialize_block_witness:
  "Serialize (NewMessage ''7'' (''a'' @ [LF] @ [LF] @ ''b'') [])
     = ''id: 7'' @ [LF] @ ''data: a'' @ [LF] @ ''data: '' @ [LF] @ ''data: b'' @ [LF] @ [LF]"
  using Serialize_block [of "NewMessage ''7'' (''a'' @ [LF] @ [LF] @ ''b'') []"]
  by (simp add: NewMessage_def data_lines_def LF_def)

text \<open>
  C3 as the specification words it fails twice: the event line of a text message reads
  \<^verbatim>\<open>msg\<close>, not \<^verbatim>\<open>message\<close>, and a message with an empty payload has no
  \<^verbatim>\<open>data:\<close> line.
\<close>

theorem Serialize_spec_counterexample:
  "Serialize (TextMessage ''7'' (''a'' @ [LF] @ ''b''))
     \<noteq> ''id: 7'' @ [LF] @ ''event: message'' @ [LF] @ ''data: a'' @ [LF] @ ''data: b'' @ [LF] @ [LF]
   \<and> Serialize (TextMessage ''7'' []) = ''id: 7'' @ [LF] @ ''event: msg'' @ [LF] @ [LF]"
  by (simp add: Serialize_def TextMessage_def NewMessage_def LF_def)

text \<open>
  C4, as the code has it: \<^verbatim>\<open>TextMessage\<close>, the constructor used for a publish, gives the
  event \<^verbatim>\<open>msg\<close>; \<^verbatim>\<open>TimeoutMessage\<close>, the one used for the timeout notification, gives
  the event \<^verbatim>\<open>timeout\<close>. Both keep the id and the payload they are given.
\<close>

theorem constructor_events:
  "event (TextMessage i d) = ''msg'' \<and> id' (TextMessage i d) = i \<and> data (TextMessage i d) = d
   \<and> event (TimeoutMessage i d) = ''timeout'' \<and> id' (TimeoutMessage i d) = i
   \<and> data (TimeoutMessage i d) = d"
  by (simp add: TextMessage_def TimeoutMessage_def NewMessage_def)

text \<open>C4 as the specification words it: the event of a text message is not \<^verbatim>\<open>message\<close>.\<close>

theorem TextMessage_event_counterexample:
  "event (TextMessage ''1'' ''hello'') \<noteq> ''message''"
  by (simp add: TextMessage_def NewMessage_def)

section \<open>Properties of Topic and Client\<close>

lemma Topic_Unsubscribe_client_effect:
  "Topic_Unsubscribe t c h =
     (case Client_Unsubscribe c h of
        Inl e \<Rightarrow> Inl e
      | Inr h' \<Rightarrow> Inr (t\<lparr>clients := AList.delete c (clients t)\<rparr>, h'))"
  by (simp add: Topic_Unsubscribe_def AList.delete_update_same)

text \<open>
  C10. \<^verbatim>\<open>t.Unsubscribe(c)\<close> for a client \<open>c\<close> that is not in the subscriber set of \<open>t\<close>
  (and is not \<^verbatim>\<open>nil\<close>): the topic comes back as it was, the entry set to \<^verbatim>\<open>false\<close> being
  deleted at once, and still the timer of \<open>c\<close> is stopped and its channel closed. The close
  does not look at the membership: on a channel that is closed already it is executed all
  the same, and panics.
\<close>

theorem Topic_Unsubscribe_not_subscribed:
  assumes "c \<notin> fst ` set (clients t)" and "map_of h c = Some cl"
  shows "Topic_Unsubscribe t c h =
     (if state (messages cl) = Open
      then Inr (t, AList.update c
                 (cl\<lparr>timer := map_option Timer_Stop (timer cl),
                     messages := (messages cl)\<lparr>state := Closed\<rparr>\<rparr>) h)
      else Inl CloseOfClosedChannel)"
proof -
  from assms(1) have "AList.delete c (clients t) = clients t"
    by simp
  then have same: "t\<lparr>clients := AList.delete c (clients t)\<rparr> = t"
    by simp
  show ?thesis
  proof (cases "state (messages cl)")
    case Open
    with assms(2) same show ?thesis
      by (simp add: Topic_Unsubscribe_client_effect Client_Unsubscribe_def close_chan_def)
  next
    case Closed
    with assms(2) show ?thesis
      by (simp add: Topic_Unsubscribe_client_effect Client_Unsubscribe_def close_chan_def)
  qed
qed

theorem Topic_Unsubscribe_not_subscribed_witness:
  "Topic_Unsubscribe \<lparr>name = ''news'', clients = [(2, True)]\<rparr> 1
     [(1, \<lparr>topic = ''news'', connectedAt = 0, messages = \<lparr>state = Open, received = []\<rparr>,
            timer = Some Running\<rparr>)]
   = Inr (\<lparr>name = ''news'', clients = [(2, True)]\<rparr>,
          [(1, \<lparr>topic = ''news'', connectedAt = 0, messages = \<lparr>state = Closed, received = []\<rparr>,
                 timer = Some Stopped\<rparr>)])"
  using Topic_Unsubscribe_not_subscribed
    [of 1 "\<lparr>name = ''news'', clients = [(2, True)]\<rparr>"
        "[(1, \<lparr>topic = ''news'', connectedAt = 0, messages = \<lparr>state = Open, received = []\<rparr>,
               timer = Some Running\<rparr>)]"
        "\<lparr>topic = ''news'', connectedAt = 0, messages = \<lparr>state = Open, received = []\<rparr>,
               timer = Some Running\<rparr>"]
  by simp

section \<open>Publishing\<close>

lemma sendToTopic_absent:
  "getTopic s n = None \<Longrightarrow>
     sendToTopic n m s = Inr (s\<lparr>logger := logger s @
        [''message not sent because topic '' @ quoted n @ '' has no subscriptions.'']\<rparr>)"
  by (simp add: sendToTopic_def Printf_def)

lemma sendToTopic_empty:
  "getTopic s n = Some tp \<Longrightarrow> clients tp = [] \<Longrightarrow>
     sendToTopic n m s = Inr (s\<lparr>logger := logger s @
        [''message sent to topic '' @ quoted n @ ''.'']\<rparr>)"
  by (simp add: sendToTopic_def Printf_def Topic_SendMessage_def)

lemma handlePostMessage_unfold:
  "n \<noteq> [] \<Longrightarrow> handlePostMessage n body s =
     (case sendToTopic n (TextMessage (Itoa (sint (lastMessageId s + 1))) body)
             (s\<lparr>lastMessageId := lastMessageId s + 1,
                logger := logger s @ [''sending message '' @ quoted body @ '' with id ''
                          @ Itoa (sint (lastMessageId s + 1)) @ '' to topic '' @ quoted n]\<rparr>) of
        Inl e \<Rightarrow> Inl e
      | Inr s3 \<Rightarrow> Inr (NoContent (lastMessageId s + 1), s3))"
  by (simp add: handlePostMessage_def generateMessageId_def Printf_def)

lemma sendToTopic_frame:
  "sendToTopic n m s = Inr s' \<Longrightarrow>
     topics s' = topics s \<and> lastMessageId s' = lastMessageId s
     \<and> clientConnected s' = clientConnected s \<and> clientDisconnected s' = clientDisconnected s
     \<and> serverShutdown s' = serverShutdown s"
  by (auto simp: sendToTopic_def Printf_def split: option.splits sum.splits)

lemma handlePostMessage_counter:
  assumes "handlePostMessage n body s = Inr (r, s')"
  shows "topics s' = topics s \<and>
     (if n = [] then r = BadRequest \<and> s' = s
      else r = NoContent (lastMessageId s + 1) \<and> lastMessageId s' = lastMessageId s + 1)"
proof (cases "n = []")
  case True
  with assms show ?thesis by (simp add: handlePostMessage_def)
next
  case False
  with assms show ?thesis
    by (auto simp: handlePostMessage_unfold split: sum.splits dest!: sendToTopic_frame)
qed

lemma sendMessageToTopic_absent:
  "getTopic s n = None \<Longrightarrow>
     sendMessageToTopic n body s = Inr (None, s\<lparr>logger := logger s @
        [''message not sent because topic '' @ quoted n @ '' has no subscriptions.'']\<rparr>)"
  by (simp add: sendMessageToTopic_def Printf_def)

lemma sendMessageToTopic_empty:
  "getTopic s n = Some tp \<Longrightarrow> clients tp = [] \<Longrightarrow>
     sendMessageToTopic n body s = Inr (Some (lastMessageId s + 1),
       s\<lparr>lastMessageId := lastMessageId s + 1,
         logger := logger s @ [''sent message '' @ quoted body @ '' with id ''
                               @ Itoa (sint (lastMessageId s + 1)) @ '' to topic '' @ quoted n]\<rparr>)"
  by (simp add: sendMessageToTopic_def generateMessageId_def Printf_def Topic_SendMessage_def)

lemma sendMessageToTopic_counter:
  assumes "sendMessageToTopic n body s = Inr (r, s')"
  shows "topics s' = topics s \<and>
     (case getTopic s n of
        None \<Rightarrow> r = None \<and> lastMessageId s' = lastMessageId s
      | Some tp \<Rightarrow> r = Some (lastMessageId s + 1) \<and> lastMessageId s' = lastMessageId s + 1)"
  using assms
  by (auto simp: sendMessageToTopic_def generateMessageId_def Printf_def
           split: option.splits sum.splits)

lemma handlePostMessage_absent:
  "n \<noteq> [] \<Longrightarrow> getTopic s n = None \<Longrightarrow>
     handlePostMessage n body s
        = Inr (NoContent (lastMessageId s + 1),
               s\<lparr>lastMessageId := lastMessageId s + 1,
                 logger := logger s @
                   [''sending message '' @ quoted body @ '' with id ''
                      @ Itoa (sint (lastMessageId s + 1)) @ '' to topic '' @ quoted n,
                    ''message not sent because topic '' @ quoted n @ '' has no subscriptions.'']\<rparr>)"
  by (simp add: handlePostMessage_def generateMessageId_def Printf_def sendToTopic_def getTopic_def)

lemma handlePostMessage_empty:
  "n \<noteq> [] \<Longrightarrow> getTopic s n = Some tp \<Longrightarrow> clients tp = [] \<Longrightarrow>
     handlePostMessage n body s
        = Inr (NoContent (lastMessageId s + 1),
               s\<lparr>lastMessageId := lastMessageId s + 1,
                 logger := logger s @
                   [''sending message '' @ quoted body @ '' with id ''
                      @ Itoa (sint (lastMessageId s + 1)) @ '' to topic '' @ quoted n,
                    ''message sent to topic '' @ quoted n @ ''.'']\<rparr>)"
  by (simp add: handlePostMessage_def generateMessageId_def Printf_def sendToTopic_def getTopic_def
        Topic_SendMessage_def)

text \<open>
  C7. A publish to a topic name without subscribers (no topic registered under the name,
  or a registered topic whose subscriber set is empty) returns without a panic in both
  publish paths, \<^verbatim>\<open>handlePostMessage\<close> with its \<^verbatim>\<open>sendToTopic\<close> and
  \<^verbatim>\<open>sendMessageToTopic\<close>; the registry is the same afterwards, so no entry is created
  and no subscriber set changes, and the store of the clients is the same, so no client
  has received anything. When no topic is registered the message is dropped with the log
  line \<^verbatim>\<open>message not sent because topic '...' has no subscriptions.\<close>
\<close>

theorem publish_no_subscribers:
  assumes zero: "\<forall>tp. getTopic s n = Some tp \<longrightarrow> clients tp = []"
  shows
    "(\<exists>s'. sendToTopic n m s = Inr s' \<and> topics s' = topics s \<and> store s' = store s)
     \<and> (\<exists>r s'. handlePostMessage n body s = Inr (r, s')
            \<and> topics s' = topics s \<and> store s' = store s)
     \<and> (\<exists>r s'. sendMessageToTopic n body s = Inr (r, s')
            \<and> topics s' = topics s \<and> store s' = store s)
     \<and> (getTopic s n = None \<longrightarrow>
          sendToTopic n m s = Inr (s\<lparr>logger := logger s @
            [''message not sent because topic '' @ quoted n @ '' has no subscriptions.'']\<rparr>)
          \<and> sendMessageToTopic n body s = Inr (None, s\<lparr>logger := logger s @
            [''message not sent because topic '' @ quoted n @ '' has no subscriptions.'']\<rparr>))"
proof -
  have send: "\<exists>s'. sendToTopic n m s = Inr s' \<and> topics s' = topics s \<and> store s' = store s"
  proof (cases "getTopic s n")
    case None
    then show ?thesis by (simp add: sendToTopic_absent)
  next
    case (Some tp)
    with zero have "clients tp = []" by simp
    with Some show ?thesis by (simp add: sendToTopic_empty)
  qed
  have post: "\<exists>r s'. handlePostMessage n body s = Inr (r, s')
            \<and> topics s' = topics s \<and> store s' = store s"
  proof (cases "n = []")
    case True
    then show ?thesis by (simp add: handlePostMessage_def)
  next
    case False
    show ?thesis
    proof (cases "getTopic s n")
      case None
      with False show ?thesis by (simp add: handlePostMessage_absent)
    next
      case (Some tp)
      with zero have "clients tp = []" by simp
      with Some False show ?thesis by (simp add: handlePostMessage_empty)
    qed
  qed
  have proc: "\<exists>r s'. sendMessageToTopic n body s = Inr (r, s')
            \<and> topics s' = topics s \<and> store s' = store s"
  proof (cases "getTopic s n")
    case None
    then show ?thesis by (simp add: sendMessageToTopic_absent)
  next
    case (Some tp)
    with zero have "clients tp = []" by simp
    with Some show ?thesis by (simp add: sendMessageToTopic_empty)
  qed
  have absent: "getTopic s n = None \<longrightarrow>
          sendToTopic n m s = Inr (s\<lparr>logger := logger s @
            [''message not sent because topic '' @ quoted n @ '' has no subscriptions.'']\<rparr>)
          \<and> sendMessageToTopic n body s = Inr (None, s\<lparr>logger := logger s @
            [''message not sent because topic '' @ quoted n @ '' has no subscriptions.'']\<rparr>)"
    by (simp add: sendToTopic_absent sendMessageToTopic_absent)
  from send post proc absent show ?thesis by blast
qed

theorem publish_no_subscribers_witness:
  "sendToTopic ''news'' (TextMessage ''1'' ''hello'') NewServer
     = Inr (NewServer\<lparr>logger :=
         [''message not sent because topic '' @ quoted ''news'' @ '' has no subscriptions.'']\<rparr>)
   \<and> sendMessageToTopic ''news'' ''hello'' NewServer
     = Inr (None, NewServer\<lparr>logger :=
         [''message not sent because topic '' @ quoted ''news'' @ '' has no subscriptions.'']\<rparr>)"
proof -
  have none: "getTopic NewServer ''news'' = None"
    by (simp add: getTopic_def NewServer_def)
  then have "\<forall>tp. getTopic NewServer ''news'' = Some tp \<longrightarrow> clients tp = []"
    by simp
  from publish_no_subscribers [OF this, of "TextMessage ''1'' ''hello''" "''hello''", THEN conjunct2,
      THEN conjunct2, THEN conjunct2] none
  have "sendToTopic ''news'' (TextMessage ''1'' ''hello'') NewServer
          = Inr (NewServer\<lparr>logger := logger NewServer @
            [''message not sent because topic '' @ quoted ''news'' @ '' has no subscriptions.'']\<rparr>)
        \<and> sendMessageToTopic ''news'' ''hello'' NewServer = Inr (None, NewServer\<lparr>logger := logger NewServer @
            [''message not sent because topic '' @ quoted ''news'' @ '' has no subscriptions.'']\<rparr>)"
    by blast
  moreover have "logger NewServer = []" by (simp add: NewServer_def)
  ultimately show ?thesis by simp
qed

text \<open>
  C8, as the code has it. \<^verbatim>\<open>handlePostMessage\<close> of server.go generates the id first and
  looks the topic up afterwards: every call with a topic name increments the counter, also
  when the topic is absent and the message is dropped (the log line with the id comes
  before the line of the drop). The other publish path, \<^verbatim>\<open>sendMessageToTopic\<close>, looks the
  topic up first and generates an id only when the topic exists: a dropped message leaves
  the counter as it was.
\<close>

theorem publish_id_allocation:
  "(n \<noteq> [] \<longrightarrow> getTopic s n = None \<longrightarrow>
      handlePostMessage n body s
        = Inr (NoContent (lastMessageId s + 1),
               s\<lparr>lastMessageId := lastMessageId s + 1,
                 logger := logger s @
                   [''sending message '' @ quoted body @ '' with id ''
                      @ Itoa (sint (lastMessageId s + 1)) @ '' to topic '' @ quoted n,
                    ''message not sent because topic '' @ quoted n @ '' has no subscriptions.'']\<rparr>))
   \<and> (\<forall>r s'. n \<noteq> [] \<longrightarrow> handlePostMessage n body s = Inr (r, s') \<longrightarrow>
          r = NoContent (lastMessageId s + 1) \<and> lastMessageId s' = lastMessageId s + 1)
   \<and> (getTopic s n = None \<longrightarrow>
        sendMessageToTopic n body s
          = Inr (None, s\<lparr>logger := logger s @
              [''message not sent because topic '' @ quoted n @ '' has no subscriptions.'']\<rparr>))
   \<and> (\<forall>r s'. getTopic s n \<noteq> None \<longrightarrow> sendMessageToTopic n body s = Inr (r, s') \<longrightarrow>
          r = Some (lastMessageId s + 1) \<and> lastMessageId s' = lastMessageId s + 1)"
proof (intro conjI allI impI)
  assume "n \<noteq> []" "getTopic s n = None"
  then show "handlePostMessage n body s
        = Inr (NoContent (lastMessageId s + 1),
               s\<lparr>lastMessageId := lastMessageId s + 1,
                 logger := logger s @
                   [''sending message '' @ quoted body @ '' with id ''
                      @ Itoa (sint (lastMessageId s + 1)) @ '' to topic '' @ quoted n,
                    ''message not sent because topic '' @ quoted n @ '' has no subscriptions.'']\<rparr>)"
    by (rule handlePostMessage_absent)
next
  fix r s' assume "n \<noteq> []" and h: "handlePostMessage n body s = Inr (r, s')"
  with handlePostMessage_counter [OF h]
  show "r = NoContent (lastMessageId s + 1)" and "lastMessageId s' = lastMessageId s + 1"
    by simp_all
next
  assume "getTopic s n = None"
  then show "sendMessageToTopic n body s
          = Inr (None, s\<lparr>logger := logger s @
              [''message not sent because topic '' @ quoted n @ '' has no subscriptions.'']\<rparr>)"
    by (rule sendMessageToTopic_absent)
next
  fix r s' assume t: "getTopic s n \<noteq> None" and h: "sendMessageToTopic n body s = Inr (r, s')"
  from t obtain tp where "getTopic s n = Some tp" by auto
  with sendMessageToTopic_counter [OF h]
  show "r = Some (lastMessageId s + 1)" and "lastMessageId s' = lastMessageId s + 1"
    by simp_all
qed

theorem publish_id_allocation_witness:
  "handlePostMessage ''news'' ''hello'' NewServer
     = Inr (NoContent 1,
            NewServer\<lparr>lastMessageId := 1,
              logger := [''sending message '' @ quoted ''hello'' @ '' with id 1 to topic '' @ quoted ''news'',
                 ''message not sent because topic '' @ quoted ''news'' @ '' has no subscriptions.'']\<rparr>)"
proof -
  have "getTopic NewServer ''news'' = None"
    by (simp add: getTopic_def NewServer_def)
  moreover have "Itoa (sint (lastMessageId NewServer + 1)) = ''1''"
    by (simp add: NewServer_def Itoa_def Itoa_nat.simps)
  moreover have "lastMessageId NewServer + 1 = 1" "logger NewServer = []"
    by (simp_all add: NewServer_def)
  ultimately show ?thesis
    using publish_id_allocation [of "''news''" NewServer "''hello''", THEN conjunct1]
    by simp
qed

text \<open>
  C8 as the specification words it fails on \<^verbatim>\<open>sendMessageToTopic\<close>: on a new server a
  publish to an absent topic generates no id and leaves the counter at 0.
\<close>

theorem sendMessageToTopic_absent_counterexample:
  "sendMessageToTopic ''news'' ''hello'' NewServer
     = Inr (None, NewServer\<lparr>logger :=
         [''message not sent because topic '' @ quoted ''news'' @ '' has no subscriptions.'']\<rparr>)
   \<and> lastMessageId (NewServer\<lparr>logger :=
         [''message not sent because topic '' @ quoted ''news'' @ '' has no subscriptions.'']\<rparr>)
       = lastMessageId NewServer"
  by (simp add: sendMessageToTopic_def getTopic_def NewServer_def Printf_def)

section \<open>The ids issued\<close>








section \<open>The registry and the subscribers\<close>

text \<open>
  The invariant of the event loop, for a store \<open>h\<close> of clients at the start and the list
  \<open>A\<close> of the subscribers: the \<^verbatim>\<open>topic\<close> fields never change; every registered topic
  sits under its own name, is not empty, and holds exactly the subscribers of that name;
  no subscriber belongs to a name that is not registered.
\<close>

definition registry_inv :: "ClientStore \<Rightarrow> Server \<Rightarrow> ClientRef list \<Rightarrow> bool" where
  "registry_inv h s A \<longleftrightarrow>
     (\<forall>c. topic_of (store s) c = topic_of h c)
     \<and> distinct A
     \<and> (\<forall>n tp. map_of (topics s) n = Some tp \<longrightarrow>
           name tp = n \<and> clients tp \<noteq> [] \<and> distinct (map fst (clients tp))
           \<and> fst ` set (clients tp) = {c \<in> set A. topic_of h c = Some n})
     \<and> (\<forall>n. map_of (topics s) n = None \<longrightarrow> (\<forall>c \<in> set A. topic_of h c \<noteq> Some n))"

text \<open>
  The channels, for the list \<open>U\<close> of the clients that have connected so far: every
  subscriber has connected, every client that has connected has a client object, and the
  channel of a subscriber, or of a client that has not connected yet, is open.
\<close>

definition chans_inv :: "ClientStore \<Rightarrow> Server \<Rightarrow> ClientRef list \<Rightarrow> ClientRef list \<Rightarrow> bool" where
  "chans_inv h s A U \<longleftrightarrow>
     set A \<subseteq> set U
     \<and> (\<forall>c \<in> set U. map_of h c \<noteq> None)
     \<and> (\<forall>c cl. map_of (store s) c = Some cl \<longrightarrow> c \<in> set A \<or> c \<notin> set U \<longrightarrow>
           state (messages cl) = Open)"

lemma onClientConnected_result:
  assumes "map_of (store s) c = Some cl"
  shows "\<exists>s'. onClientConnected c s = Inr s'
     \<and> map_of (topics s') = (map_of (topics s))(topic cl \<mapsto>
               Topic_Subscribe (case getTopic s (topic cl) of Some tp \<Rightarrow> tp
                                | None \<Rightarrow> NewTopic (topic cl)) c)
     \<and> store s' = store s"
proof (cases "getTopic s (topic cl)")
  case None
  with assms show ?thesis
    by (simp add: onClientConnected_def createTopic_def Printf_def Let_def NewTopic_def
          map_of_map_entry update_conv')
next
  case (Some tp)
  with assms show ?thesis
    by (simp add: onClientConnected_def Printf_def Let_def map_of_map_entry getTopic_def)
qed

lemma Client_Unsubscribe_topic_of:
  "Client_Unsubscribe c h = Inr h' \<Longrightarrow> topic_of h' c' = topic_of h c'"
  by (auto simp: Client_Unsubscribe_def topic_of_def update_conv' close_chan_def
           split: option.splits sum.splits if_splits)

lemma Topic_Destroy_empty: "clients tp = [] \<Longrightarrow> Topic_Destroy tp h = Inr (tp, h)"
  by (simp add: Topic_Destroy_def)

lemma onClientDisconnected_result:
  assumes ok: "onClientDisconnected c s = Inr s'" and cl: "map_of (store s) c = Some cl"
  shows "(case getTopic s (topic cl) of
            None \<Rightarrow> s' = s
          | Some tp \<Rightarrow>
              Client_Unsubscribe c (store s) = Inr (store s') \<and>
              topics s' =
                 (if AList.delete c (clients tp) = []
                  then AList.delete (name tp)
                         (AList.map_entry (topic cl) (\<lambda>_. tp\<lparr>clients := []\<rparr>) (topics s))
                  else AList.map_entry (topic cl)
                         (\<lambda>_. tp\<lparr>clients := AList.delete c (clients tp)\<rparr>) (topics s)))"
proof (cases "getTopic s (topic cl)")
  case None
  with ok cl show ?thesis by (simp add: onClientDisconnected_def)
next
  case (Some tp)
  from ok cl Some obtain h' where u: "Client_Unsubscribe c (store s) = Inr h'"
    by (auto simp: onClientDisconnected_def Topic_Unsubscribe_client_effect split: sum.splits)
  show ?thesis
  proof (cases "AList.delete c (clients tp) = []")
    case True
    with ok cl Some u show ?thesis
      by (auto simp: onClientDisconnected_def Topic_Unsubscribe_client_effect Let_def
          Topic_HasSubscribers_def Topic_SubscriptionsCount_def destroyTopic_def Printf_def
          Topic_Destroy_empty)
  next
    case False
    with ok cl Some u show ?thesis
      by (auto simp: onClientDisconnected_def Topic_Unsubscribe_client_effect Let_def
          Topic_HasSubscribers_def Topic_SubscriptionsCount_def Printf_def)
  qed
qed

lemma onClientConnected_inv:
  assumes inv: "registry_inv h s A" and ok: "onClientConnected c s = Inr s'"
  shows "registry_inv h s' (List.insert c A)"
proof -
  from ok obtain cl where cl: "map_of (store s) c = Some cl"
    by (auto simp: onClientConnected_def split: option.splits)
  define n0 where "n0 = topic cl"
  define tp0 where "tp0 = (case getTopic s n0 of Some tp \<Rightarrow> tp | None \<Rightarrow> NewTopic n0)"
  define tp' where "tp' = Topic_Subscribe tp0 c"
  from onClientConnected_result [OF cl] ok
  have m: "map_of (topics s') = (map_of (topics s))(n0 \<mapsto> tp')" and st: "store s' = store s"
    unfolding tp'_def tp0_def n0_def by auto
  from inv have I1: "\<And>c. topic_of (store s) c = topic_of h c" and I2: "distinct A"
    and I3: "\<And>n tp. map_of (topics s) n = Some tp \<Longrightarrow>
           name tp = n \<and> clients tp \<noteq> [] \<and> distinct (map fst (clients tp))
           \<and> fst ` set (clients tp) = {c \<in> set A. topic_of h c = Some n}"
    and I4: "\<And>n c. map_of (topics s) n = None \<Longrightarrow> c \<in> set A \<Longrightarrow> topic_of h c \<noteq> Some n"
    by (auto simp: registry_inv_def)
  from cl I1 [of c] have tc: "topic_of h c = Some n0"
    by (simp add: topic_of_def n0_def)
  have tp0: "name tp0 = n0 \<and> distinct (map fst (clients tp0))
           \<and> fst ` set (clients tp0) = {c \<in> set A. topic_of h c = Some n0}"
  proof (cases "map_of (topics s) n0")
    case None
    then have "tp0 = NewTopic n0" by (simp add: tp0_def getTopic_def)
    with I4 [OF None] show ?thesis by (auto simp: NewTopic_def)
  next
    case (Some tp)
    then have "tp0 = tp" by (simp add: tp0_def getTopic_def)
    with I3 [OF Some] show ?thesis by simp
  qed
  have tp': "name tp' = n0 \<and> clients tp' \<noteq> [] \<and> distinct (map fst (clients tp'))
           \<and> fst ` set (clients tp') = {c' \<in> set (List.insert c A). topic_of h c' = Some n0}"
  proof -
    have "clients tp' = AList.update c True (clients tp0)" "name tp' = name tp0"
      by (simp_all add: tp'_def Topic_Subscribe_def)
    moreover have "fst ` set (AList.update c True (clients tp0)) = {c} \<union> fst ` set (clients tp0)"
      by (rule dom_update)
    ultimately show ?thesis
      using tp0 tc by (auto simp: distinct_update)
  qed
  show ?thesis
    unfolding registry_inv_def
  proof (intro conjI allI impI ballI)
    fix c' show "topic_of (store s') c' = topic_of h c'" using I1 st by simp
  next
    show "distinct (List.insert c A)" using I2 by simp
  next
    fix n tp assume a: "map_of (topics s') n = Some tp"
    show "name tp = n" "clients tp \<noteq> []" "distinct (map fst (clients tp))"
      "fst ` set (clients tp) = {c' \<in> set (List.insert c A). topic_of h c' = Some n}"
    proof -
      have "name tp = n \<and> clients tp \<noteq> [] \<and> distinct (map fst (clients tp))
        \<and> fst ` set (clients tp) = {c' \<in> set (List.insert c A). topic_of h c' = Some n}"
      proof (cases "n = n0")
        case True
        with a m have "tp = tp'" by simp
        with tp' True show ?thesis by simp
      next
        case False
        with a m have "map_of (topics s) n = Some tp" by simp
        from I3 [OF this] False tc show ?thesis by auto
      qed
      then show "name tp = n" "clients tp \<noteq> []" "distinct (map fst (clients tp))"
        "fst ` set (clients tp) = {c' \<in> set (List.insert c A). topic_of h c' = Some n}"
        by blast+
    qed
  next
    fix n c' assume a: "map_of (topics s') n = None" and b: "c' \<in> set (List.insert c A)"
    from a m have ne: "n \<noteq> n0" and old: "map_of (topics s) n = None"
      by (auto split: if_splits)
    show "topic_of h c' \<noteq> Some n"
    proof (cases "c' = c")
      case True
      with tc ne show ?thesis by simp
    next
      case False
      with b have "c' \<in> set A" by simp
      from I4 [OF old this] show ?thesis .
    qed
  qed
qed

lemma keys_delete: "fst ` set (AList.delete c al) = fst ` set al - {c}"
proof -
  have "set (map fst (AList.delete c al)) = set (map fst al) - {c}"
    by (simp only: delete_keys set_removeAll)
  then show ?thesis by simp
qed

lemma onClientDisconnected_inv:
  assumes inv: "registry_inv h s A" and ok: "onClientDisconnected c s = Inr s'"
  shows "registry_inv h s' (removeAll c A)"
proof -
  from ok obtain cl where cl: "map_of (store s) c = Some cl"
    by (auto simp: onClientDisconnected_def split: option.splits)
  define n0 where "n0 = topic cl"
  from inv have I1: "\<And>c. topic_of (store s) c = topic_of h c" and I2: "distinct A"
    and I3: "\<And>n tp. map_of (topics s) n = Some tp \<Longrightarrow>
           name tp = n \<and> clients tp \<noteq> [] \<and> distinct (map fst (clients tp))
           \<and> fst ` set (clients tp) = {c \<in> set A. topic_of h c = Some n}"
    and I4: "\<And>n c. map_of (topics s) n = None \<Longrightarrow> c \<in> set A \<Longrightarrow> topic_of h c \<noteq> Some n"
    by (auto simp: registry_inv_def)
  from cl I1 [of c] have tc: "topic_of h c = Some n0"
    by (simp add: topic_of_def n0_def)
  have other: "{c' \<in> set (removeAll c A). topic_of h c' = Some n} = {c' \<in> set A. topic_of h c' = Some n}"
    if "n \<noteq> n0" for n
    using that tc by auto
  note res = onClientDisconnected_result [OF ok cl, folded n0_def]
  show ?thesis
  proof (cases "map_of (topics s) n0")
    case None
    with res have same: "s' = s" by (simp add: getTopic_def)
    show ?thesis
      unfolding registry_inv_def same
    proof (intro conjI allI impI ballI)
      fix c' show "topic_of (store s) c' = topic_of h c'" by (rule I1)
    next
      show "distinct (removeAll c A)" using I2 by (simp add: distinct_removeAll)
    next
      fix n tp assume a: "map_of (topics s) n = Some tp"
      with None have "n \<noteq> n0" by auto
      from I3 [OF a] other [OF this]
      show "name tp = n" "clients tp \<noteq> []" "distinct (map fst (clients tp))"
        "fst ` set (clients tp) = {c' \<in> set (removeAll c A). topic_of h c' = Some n}"
        by simp_all
    next
      fix n c' assume "map_of (topics s) n = None" "c' \<in> set (removeAll c A)"
      then show "topic_of h c' \<noteq> Some n" using I4 [of n c'] by simp
    qed
  next
    case (Some tp)
    note T = I3 [OF Some]
    define d where "d = AList.delete c (clients tp)"
    from res Some have u: "Client_Unsubscribe c (store s) = Inr (store s')"
      and tops: "topics s' =
                 (if d = []
                  then AList.delete (name tp)
                         (AList.map_entry n0 (\<lambda>_. tp\<lparr>clients := []\<rparr>) (topics s))
                  else AList.map_entry n0 (\<lambda>_. tp\<lparr>clients := d\<rparr>) (topics s))"
      by (simp_all add: getTopic_def d_def)
    have S1: "topic_of (store s') c' = topic_of h c'" for c'
      using Client_Unsubscribe_topic_of [OF u, of c'] I1 [of c'] by simp
    have dk: "fst ` set d = {c' \<in> set (removeAll c A). topic_of h c' = Some n0}"
      using T tc by (auto simp: d_def keys_delete)
    have dd: "distinct (map fst d)"
      using T by (simp add: d_def distinct_delete)
    show ?thesis
    proof (cases "d = []")
      case True
      with tops T have m: "map_of (topics s') = (map_of (topics s))(n0 := None)"
        by (simp add: delete_conv' map_of_map_entry)
      show ?thesis
        unfolding registry_inv_def
      proof (intro conjI allI impI ballI)
        fix c' show "topic_of (store s') c' = topic_of h c'" by (rule S1)
      next
        show "distinct (removeAll c A)" using I2 by (simp add: distinct_removeAll)
      next
        fix n tq assume a: "map_of (topics s') n = Some tq"
        with m have ne: "n \<noteq> n0" and old: "map_of (topics s) n = Some tq"
          by (auto split: if_splits)
        from I3 [OF old] other [OF ne]
        show "name tq = n" "clients tq \<noteq> []" "distinct (map fst (clients tq))"
          "fst ` set (clients tq) = {c' \<in> set (removeAll c A). topic_of h c' = Some n}"
          by simp_all
      next
        fix n c' assume a: "map_of (topics s') n = None" and b: "c' \<in> set (removeAll c A)"
        show "topic_of h c' \<noteq> Some n"
        proof (cases "n = n0")
          case True
          from dk \<open>d = []\<close> b show ?thesis unfolding True by auto
        next
          case False
          with a m have "map_of (topics s) n = None" by simp
          with b show ?thesis using I4 [of n c'] by simp
        qed
      qed
    next
      case False
      with tops Some
      have m: "map_of (topics s') = (map_of (topics s))(n0 \<mapsto> tp\<lparr>clients := d\<rparr>)"
        by (simp add: map_of_map_entry)
      show ?thesis
        unfolding registry_inv_def
      proof (intro conjI allI impI ballI)
        fix c' show "topic_of (store s') c' = topic_of h c'" by (rule S1)
      next
        show "distinct (removeAll c A)" using I2 by (simp add: distinct_removeAll)
      next
        fix n tq assume a: "map_of (topics s') n = Some tq"
        have "name tq = n \<and> clients tq \<noteq> [] \<and> distinct (map fst (clients tq))
          \<and> fst ` set (clients tq) = {c' \<in> set (removeAll c A). topic_of h c' = Some n}"
        proof (cases "n = n0")
          case True
          with a m have "tq = tp\<lparr>clients := d\<rparr>" by simp
          with True T dk dd False show ?thesis by simp
        next
          case ne: False
          with a m have "map_of (topics s) n = Some tq" by simp
          from I3 [OF this] other [OF ne] show ?thesis by simp
        qed
        then show "name tq = n" "clients tq \<noteq> []" "distinct (map fst (clients tq))"
          "fst ` set (clients tq) = {c' \<in> set (removeAll c A). topic_of h c' = Some n}"
          by blast+
      next
        fix n c' assume a: "map_of (topics s') n = None" and b: "c' \<in> set (removeAll c A)"
        with m have "map_of (topics s) n = None" by (auto split: if_splits)
        with b show "topic_of h c' \<noteq> Some n" using I4 [of n c'] by simp
      qed
    qed
  qed
qed

lemma listen_loop_inv:
  "ServerShutdown \<notin> set es \<Longrightarrow> registry_inv h s A \<Longrightarrow> listen_loop es s = Inr s' \<Longrightarrow>
     registry_inv h s' (spec_subscribers es A)"
proof (induction es arbitrary: s A)
  case Nil
  then show ?case by simp
next
  case (Cons e es)
  show ?case
  proof (cases e)
    case (ClientConnected c)
    with Cons.prems obtain s1 where
      h: "onClientConnected c s = Inr s1" and t: "listen_loop es s1 = Inr s'"
      by (auto split: sum.splits)
    from onClientConnected_inv [OF Cons.prems(2) h] Cons.prems(1) t ClientConnected
    show ?thesis using Cons.IH by simp
  next
    case (ClientDisconnected c)
    with Cons.prems obtain s1 where
      h: "onClientDisconnected c s = Inr s1" and t: "listen_loop es s1 = Inr s'"
      by (auto split: sum.splits)
    from onClientDisconnected_inv [OF Cons.prems(2) h] Cons.prems(1) t ClientDisconnected
    show ?thesis using Cons.IH by simp
  next
    case ServerShutdown
    with Cons.prems show ?thesis by simp
  qed
qed

text \<open>
  The handlers return, and the event loop with them, on the sequences in which every client
  is connected once and disconnected at most once: a disconnect finds the channel open.
\<close>

lemma onClientDisconnected_returns:
  assumes cl: "map_of (store s) c = Some cl" and op: "state (messages cl) = Open"
  shows "\<exists>s'. onClientDisconnected c s = Inr s'
           \<and> (\<forall>c'. c' \<noteq> c \<longrightarrow> map_of (store s') c' = map_of (store s) c')"
proof (cases "getTopic s (topic cl)")
  case None
  with cl show ?thesis by (simp add: onClientDisconnected_def)
next
  case (Some tp)
  from cl op have u: "Client_Unsubscribe c (store s) =
      Inr (AList.update c (cl\<lparr>timer := map_option Timer_Stop (timer cl),
                               messages := (messages cl)\<lparr>state := Closed\<rparr>\<rparr>) (store s))"
    by (simp add: Client_Unsubscribe_def close_chan_def)
  show ?thesis
  proof (cases "AList.delete c (clients tp) = []")
    case True
    with cl Some u show ?thesis
      by (simp add: onClientDisconnected_def Topic_Unsubscribe_client_effect Let_def
          Topic_HasSubscribers_def Topic_SubscriptionsCount_def destroyTopic_def Printf_def
          Topic_Destroy_empty update_conv')
  next
    case False
    with cl Some u show ?thesis
      by (simp add: onClientDisconnected_def Topic_Unsubscribe_client_effect Let_def
          Topic_HasSubscribers_def Topic_SubscriptionsCount_def Printf_def update_conv')
  qed
qed

lemma registry_inv_dom:
  "registry_inv h s A \<Longrightarrow> (map_of (store s) c = None) = (map_of h c = None)"
proof -
  assume "registry_inv h s A"
  then have "topic_of (store s) c = topic_of h c" by (simp add: registry_inv_def)
  then show ?thesis
    by (cases "map_of (store s) c"; cases "map_of h c") (simp_all add: topic_of_def)
qed

lemma listen_loop_returns:
  "wellformed h es A U \<Longrightarrow> registry_inv h s A \<Longrightarrow> chans_inv h s A U \<Longrightarrow>
     \<exists>s'. listen_loop es s = Inr s' \<and> registry_inv h s' (spec_subscribers es A)"
proof (induction es arbitrary: s A U)
  case Nil
  then show ?case by simp
next
  case (Cons e es)
  from Cons.prems(3) have AU: "set A \<subseteq> set U"
    and Uh: "\<And>c. c \<in> set U \<Longrightarrow> map_of h c \<noteq> None"
    and op: "\<And>c cl. map_of (store s) c = Some cl \<Longrightarrow> c \<in> set A \<or> c \<notin> set U \<Longrightarrow>
                state (messages cl) = Open"
    by (auto simp: chans_inv_def)
  show ?case
  proof (cases e)
    case (ClientConnected c)
    with Cons.prems(1) have cU: "c \<notin> set U" and ch: "map_of h c \<noteq> None"
      and wf: "wellformed h es (List.insert c A) (c # U)" by simp_all
    from ch registry_inv_dom [OF Cons.prems(2), of c] obtain cl
      where cl: "map_of (store s) c = Some cl" by auto
    from onClientConnected_result [OF cl] obtain s1
      where h: "onClientConnected c s = Inr s1" and st: "store s1 = store s" by blast
    have ci: "chans_inv h s1 (List.insert c A) (c # U)"
      unfolding chans_inv_def
    proof (intro conjI ballI allI impI)
      show "set (List.insert c A) \<subseteq> set (c # U)" using AU by auto
    next
      fix c' assume "c' \<in> set (c # U)"
      then show "map_of h c' \<noteq> None" using ch Uh by auto
    next
      fix c' cl' assume a: "map_of (store s1) c' = Some cl'"
        and b: "c' \<in> set (List.insert c A) \<or> c' \<notin> set (c # U)"
      from b cU have "c' \<in> set A \<or> c' \<notin> set U" by auto
      with a st show "state (messages cl') = Open" using op [of c' cl'] by simp
    qed
    from Cons.IH [OF wf onClientConnected_inv [OF Cons.prems(2) h] ci] h ClientConnected
    show ?thesis by simp
  next
    case (ClientDisconnected c)
    with Cons.prems(1) have cA: "c \<in> set A"
      and wf: "wellformed h es (removeAll c A) U" by simp_all
    from cA AU have cU: "c \<in> set U" by auto
    from Uh [OF cU] registry_inv_dom [OF Cons.prems(2), of c] obtain cl
      where cl: "map_of (store s) c = Some cl" by auto
    from op [OF cl] cA have "state (messages cl) = Open" by simp
    from onClientDisconnected_returns [OF cl this] obtain s1
      where h: "onClientDisconnected c s = Inr s1"
        and st: "\<And>c'. c' \<noteq> c \<Longrightarrow> map_of (store s1) c' = map_of (store s) c'" by blast
    have ci: "chans_inv h s1 (removeAll c A) U"
      unfolding chans_inv_def
    proof (intro conjI ballI allI impI)
      show "set (removeAll c A) \<subseteq> set U" using AU by auto
    next
      fix c' assume "c' \<in> set U"
      then show "map_of h c' \<noteq> None" by (rule Uh)
    next
      fix c' cl' assume a: "map_of (store s1) c' = Some cl'"
        and b: "c' \<in> set (removeAll c A) \<or> c' \<notin> set U"
      from b cU have ne: "c' \<noteq> c" and "c' \<in> set A \<or> c' \<notin> set U" by auto
      with a st [OF ne] show "state (messages cl') = Open" using op [of c' cl'] by simp
    qed
    from Cons.IH [OF wf onClientDisconnected_inv [OF Cons.prems(2) h] ci] h ClientDisconnected
    show ?thesis by simp
  next
    case ServerShutdown
    with Cons.prems(1) show ?thesis by simp
  qed
qed

lemma wellformed_append:
  "wellformed h (es @ es') A U \<Longrightarrow> wellformed h es A U"
  by (induction h es A U rule: wellformed.induct) simp_all

lemma wellformed_noshut: "wellformed h es A U \<Longrightarrow> ServerShutdown \<notin> set es"
  by (induction h es A U rule: wellformed.induct) simp_all

lemma registry_inv_NewServer:
  "registry_inv h (Printf line (NewServer\<lparr>store := h\<rparr>)) []"
  by (simp add: registry_inv_def Printf_def NewServer_def)

lemmas handler_defs =
  listen_def NewServer_def Printf_def onClientConnected_def onClientDisconnected_def
  getTopic_def createTopic_def NewTopic_def Topic_Subscribe_def Topic_Unsubscribe_def
  Client_Unsubscribe_def close_chan_def Topic_HasSubscribers_def Topic_SubscriptionsCount_def
  destroyTopic_def Topic_Destroy_def Let_def

lemma listen_example:
  "map_sum id topics
     (listen [ClientConnected 1, ClientConnected 2, ClientDisconnected 1]
        (NewServer\<lparr>store := [(1, fresh_client ''news''), (2, fresh_client ''news'')]\<rparr>))
   = Inr [(''news'', \<lparr>name = ''news'', clients = [(2, True)]\<rparr>)]"
  by (simp add: handler_defs fresh_client_def)

text \<open>
  After every sequence of connect and disconnect events that the event loop of a new
  server has handled without a panic (no shutdown among them; the clients may be of one
  topic name or of several), a topic name is in the registry exactly when its subscriber
  count is greater than zero, and the topic registered under a name reports exactly that
  count.
\<close>

lemma registry_iff_subscribers:
  assumes noshut: "ServerShutdown \<notin> set es"
    and run: "listen es (NewServer\<lparr>store := h\<rparr>) = Inr s"
  shows "(getTopic s n \<noteq> None) = (0 < spec_subscriber_count h es n)
     \<and> (\<forall>tp. getTopic s n = Some tp \<longrightarrow>
           name tp = n \<and> Topic_HasSubscribers tp
           \<and> Topic_SubscriptionsCount tp = spec_subscriber_count h es n)"
proof -
  define A where "A = spec_subscribers es []"
  from run have "listen_loop es (Printf ''server started.'' (NewServer\<lparr>store := h\<rparr>)) = Inr s"
    by (simp add: listen_def)
  from listen_loop_inv [OF noshut registry_inv_NewServer this]
  have inv: "registry_inv h s A" by (simp add: A_def)
  then have I2: "distinct A"
    and I3: "\<And>tp. map_of (topics s) n = Some tp \<Longrightarrow>
           name tp = n \<and> clients tp \<noteq> [] \<and> distinct (map fst (clients tp))
           \<and> fst ` set (clients tp) = {c \<in> set A. topic_of h c = Some n}"
    and I4: "\<And>c. map_of (topics s) n = None \<Longrightarrow> c \<in> set A \<Longrightarrow> topic_of h c \<noteq> Some n"
    by (auto simp: registry_inv_def)
  have cnt: "spec_subscriber_count h es n = length (filter (\<lambda>c. topic_of h c = Some n) A)"
    by (simp add: spec_subscriber_count_def A_def)
  show ?thesis
  proof (cases "map_of (topics s) n")
    case None
    with I4 have "filter (\<lambda>c. topic_of h c = Some n) A = []"
      by (auto simp: filter_empty_conv)
    with None cnt show ?thesis by (simp add: getTopic_def)
  next
    case (Some tp)
    note T = I3 [OF Some]
    have "length (clients tp) = length (map fst (clients tp))" by simp
    also have "\<dots> = card (set (map fst (clients tp)))"
      using T by (simp only: distinct_card)
    also have "set (map fst (clients tp)) = set (filter (\<lambda>c. topic_of h c = Some n) A)"
      using T by auto
    also have "card \<dots> = length (filter (\<lambda>c. topic_of h c = Some n) A)"
      using I2 by (intro distinct_card distinct_filter)
    finally have len: "length (clients tp) = spec_subscriber_count h es n"
      by (simp add: cnt)
    moreover from T have "0 < length (clients tp)" by simp
    ultimately show ?thesis
      using Some T
      by (simp add: getTopic_def Topic_HasSubscribers_def Topic_SubscriptionsCount_def)
  qed
qed

lemma registry_iff_subscribers_example:
  "map_sum id topics
     (listen [ClientConnected 1, ClientConnected 2, ClientDisconnected 1]
        (NewServer\<lparr>store := [(1, fresh_client ''news''), (2, fresh_client ''news'')]\<rparr>))
     = Inr [(''news'', \<lparr>name = ''news'', clients = [(2, True)]\<rparr>)]
   \<and> spec_subscriber_count [(1, fresh_client ''news''), (2, fresh_client ''news'')]
        [ClientConnected 1, ClientConnected 2, ClientDisconnected 1] ''news'' = 1
   \<and> spec_subscriber_count [(1, fresh_client ''news''), (2, fresh_client ''news'')]
        [ClientConnected 1, ClientConnected 2, ClientDisconnected 1] ''sport'' = 0"
proof -
  let ?h = "[(1, fresh_client ''news''), (2, fresh_client ''news'')]"
  let ?es = "[ClientConnected 1, ClientConnected 2, ClientDisconnected 1]"
  obtain s where run: "listen ?es (NewServer\<lparr>store := ?h\<rparr>) = Inr s"
    and tops: "topics s = [(''news'', \<lparr>name = ''news'', clients = [(2, True)]\<rparr>)]"
    using listen_example by (cases "listen ?es (NewServer\<lparr>store := ?h\<rparr>)") auto
  have noshut: "ServerShutdown \<notin> set ?es" by simp
  from tops have g1: "getTopic s ''news'' = Some \<lparr>name = ''news'', clients = [(2, True)]\<rparr>"
    and g2: "getTopic s ''sport'' = None"
    by (simp_all add: getTopic_def)
  from registry_iff_subscribers [OF noshut run, of "''news''"] g1
  have "spec_subscriber_count ?h ?es ''news'' = 1"
    by (simp add: Topic_SubscriptionsCount_def)
  moreover from registry_iff_subscribers [OF noshut run, of "''sport''"] g2
  have "spec_subscriber_count ?h ?es ''sport'' = 0"
    by simp
  ultimately show ?thesis using listen_example by simp
qed

text \<open>
  On the sequences in which every client is connected once and disconnected at most once,
  with all channels open at the start, the event loop handles every event, and after each
  of them (after the first \<open>k\<close>, for every \<open>k\<close>) the topic name is registered exactly when
  its subscriber count is greater than zero.
\<close>

lemma listen_returns:
  assumes wf: "wellformed h es [] []"
    and op: "\<forall>c cl. map_of h c = Some cl \<longrightarrow> state (messages cl) = Open"
  shows "\<exists>s. listen es (NewServer\<lparr>store := h\<rparr>) = Inr s
           \<and> registry_inv h s (spec_subscribers es [])"
proof -
  have ci: "chans_inv h (Printf ''server started.'' (NewServer\<lparr>store := h\<rparr>)) [] []"
    using op by (simp add: chans_inv_def Printf_def NewServer_def)
  from listen_loop_returns [OF wf registry_inv_NewServer ci]
  show ?thesis by (simp add: listen_def)
qed

lemma registry_iff_subscribers_after_each:
  assumes wf: "wellformed h es [] []"
    and op: "\<forall>c cl. map_of h c = Some cl \<longrightarrow> state (messages cl) = Open"
  shows "\<exists>s. listen (take k es) (NewServer\<lparr>store := h\<rparr>) = Inr s
           \<and> (getTopic s n \<noteq> None) = (0 < spec_subscriber_count h (take k es) n)"
proof -
  have "wellformed h (take k es @ drop k es) [] []" using wf by simp
  then have wf': "wellformed h (take k es) [] []" by (rule wellformed_append)
  from listen_returns [OF wf' op] obtain s
    where run: "listen (take k es) (NewServer\<lparr>store := h\<rparr>) = Inr s" by blast
  have "(getTopic s n \<noteq> None) = (0 < spec_subscriber_count h (take k es) n)"
    by (rule registry_iff_subscribers [OF wellformed_noshut [OF wf'] run, THEN conjunct1])
  with run show ?thesis by (intro exI conjI)
qed

lemma listen_empties_registry:
  "map_sum id topics
     (listen [ClientConnected 1, ClientDisconnected 1]
        (NewServer\<lparr>store := [(1, fresh_client ''news'')]\<rparr>)) = Inr []"
  by (simp add: handler_defs fresh_client_def)

lemma registry_iff_subscribers_after_each_example:
  "\<exists>s. listen [ClientConnected 1, ClientConnected 2, ClientDisconnected 1, ClientDisconnected 2]
          (NewServer\<lparr>store := [(1, fresh_client ''news''), (2, fresh_client ''news'')]\<rparr>) = Inr s
      \<and> getTopic s ''news'' = None"
proof -
  let ?h = "[(1, fresh_client ''news''), (2, fresh_client ''news'')]"
  let ?es = "[ClientConnected 1, ClientConnected 2, ClientDisconnected 1, ClientDisconnected 2]"
  have wf: "wellformed ?h ?es [] []" by simp
  have op: "\<forall>c cl. map_of ?h c = Some cl \<longrightarrow> state (messages cl) = Open"
    by (simp add: fresh_client_def)
  have cnt: "spec_subscriber_count ?h ?es ''news'' = 0"
    by (simp add: spec_subscriber_count_def)
  from registry_iff_subscribers_after_each [OF wf op, of 4 "''news''"] cnt
  show ?thesis by simp
qed

text \<open>
  C1 on the code, at a sequence of connects and disconnects on one topic name: client 1
  connects and is disconnected, client 2 connects, and a disconnect of client 1 arrives
  once more. The first disconnect empties the topic, which is destroyed; the connect of
  client 2 creates it again, and after this third event the registry holds the topic with
  its one subscriber. The fourth event finds the topic registered, so
  \<^verbatim>\<open>Topic.Unsubscribe\<close> runs for client 1 and closes the channel that the first disconnect
  closed: the event loop panics. The subscriber count of the name after the four events
  is 1, and there is no registry for the topic to be present in. (The close without a guard
  is the one of the next section, on disconnecting twice; the sequences on which the
  property holds after each event: \<open>registry_iff_subscribers_after_each\<close>.)
\<close>

theorem repeated_disconnect_leaves_no_registry:
  "map_sum id topics
     (listen [ClientConnected 1, ClientDisconnected 1, ClientConnected 2]
        (NewServer\<lparr>store := [(1, fresh_client ''news''), (2, fresh_client ''news'')]\<rparr>))
     = Inr [(''news'', \<lparr>name = ''news'', clients = [(2, True)]\<rparr>)]
   \<and> spec_subscriber_count [(1, fresh_client ''news''), (2, fresh_client ''news'')]
        [ClientConnected 1, ClientDisconnected 1, ClientConnected 2, ClientDisconnected 1]
        ''news'' = 1
   \<and> listen [ClientConnected 1, ClientDisconnected 1, ClientConnected 2, ClientDisconnected 1]
        (NewServer\<lparr>store := [(1, fresh_client ''news''), (2, fresh_client ''news'')]\<rparr>)
     = Inl CloseOfClosedChannel"
  by (simp add: handler_defs fresh_client_def spec_subscriber_count_def topic_of_def)

section \<open>Disconnecting twice\<close>

lemma Client_Unsubscribe_Inr:
  assumes "Client_Unsubscribe c h = Inr h'"
  shows "\<exists>cl. map_of h c = Some cl \<and> state (messages cl) = Open
           \<and> h' = AList.update c
                 (cl\<lparr>timer := map_option Timer_Stop (timer cl),
                     messages := (messages cl)\<lparr>state := Closed\<rparr>\<rparr>) h"
proof -
  from assms obtain cl where cl: "map_of h c = Some cl"
    by (auto simp: Client_Unsubscribe_def split: option.splits)
  from assms cl have "state (messages cl) \<noteq> Closed"
    by (auto simp: Client_Unsubscribe_def close_chan_def split: if_splits)
  then have "state (messages cl) = Open" by (cases "state (messages cl)") simp_all
  with assms cl show ?thesis
    by (auto simp: Client_Unsubscribe_def close_chan_def)
qed

lemma second_disconnect:
  assumes first: "onClientDisconnected c s = Inr s1"
    and cl: "map_of (store s) c = Some cl"
    and reg: "getTopic s (topic cl) = Some tp"
  shows "onClientDisconnected c s1 =
           (if getTopic s1 (topic cl) = None then Inr s1 else Inl CloseOfClosedChannel)"
proof -
  from onClientDisconnected_result [OF first cl] reg
  have u: "Client_Unsubscribe c (store s) = Inr (store s1)" by simp
  from Client_Unsubscribe_Inr [OF u] cl
  have "store s1 = AList.update c
                 (cl\<lparr>timer := map_option Timer_Stop (timer cl),
                     messages := (messages cl)\<lparr>state := Closed\<rparr>\<rparr>) (store s)"
    by auto
  then obtain cl1 where c1: "map_of (store s1) c = Some cl1"
    and t1: "topic cl1 = topic cl" and st: "state (messages cl1) = Closed"
    by (simp add: update_conv')
  show ?thesis
  proof (cases "getTopic s1 (topic cl)")
    case None
    with c1 t1 show ?thesis by (simp add: onClientDisconnected_def)
  next
    case (Some tq)
    with c1 t1 st show ?thesis
      by (simp add: onClientDisconnected_def Topic_Unsubscribe_client_effect
            Client_Unsubscribe_def close_chan_def)
  qed
qed

lemma double_disconnect_last_subscriber:
  "map_sum id (\<lambda>s. (topics s, store s))
     (listen [ClientConnected 1, ClientDisconnected 1, ClientDisconnected 1]
        (NewServer\<lparr>store := [(1, fresh_client ''news'')]\<rparr>))
   = Inr ([], [(1, (fresh_client ''news'')\<lparr>messages := \<lparr>state = Closed, received = []\<rparr>\<rparr>)])"
  by (simp add: handler_defs fresh_client_def)

text \<open>
  C2 on the code: two clients subscribe to the same topic and the first one is
  disconnected twice. The topic is still registered at the second disconnect, so
  \<^verbatim>\<open>Topic.Unsubscribe\<close> runs again and closes the channel a second time: the event loop
  panics. (When the client was the last subscriber the topic is gone at the second
  disconnect, which then does nothing: \<open>double_disconnect_last_subscriber\<close>; the two
  cases in general: \<open>second_disconnect\<close>.)
\<close>

theorem double_disconnect_panics:
  "listen [ClientConnected 1, ClientConnected 2, ClientDisconnected 1, ClientDisconnected 1]
     (NewServer\<lparr>store := [(1, fresh_client ''news''), (2, fresh_client ''news'')]\<rparr>)
   = Inl CloseOfClosedChannel"
  by (simp add: handler_defs fresh_client_def)

section \<open>Shutdown\<close>

lemma Client_Unsubscribe_open:
  assumes "chan_state_of h c = Some Open"
  shows "\<exists>h'. Client_Unsubscribe c h = Inr h' \<and> chan_state_of h' c = Some Closed
           \<and> (\<forall>c'. c' \<noteq> c \<longrightarrow> map_of h' c' = map_of h c')"
  using assms
  by (auto simp: chan_state_of_def Client_Unsubscribe_def close_chan_def update_conv')

lemma Topic_Destroy_loop_open:
  assumes "distinct cs" and "\<forall>c \<in> set cs. chan_state_of h c = Some Open"
  shows "\<exists>tp' h'. Topic_Destroy_loop cs tp h = Inr (tp', h') \<and> name tp' = name tp
           \<and> (\<forall>c \<in> set cs. chan_state_of h' c = Some Closed)
           \<and> (\<forall>c. c \<notin> set cs \<longrightarrow> map_of h' c = map_of h c)"
  using assms
proof (induction cs arbitrary: tp h)
  case Nil
  then show ?case by simp
next
  case (Cons c cs)
  from Cons.prems have o: "chan_state_of h c = Some Open" by simp
  from Client_Unsubscribe_open [OF o] obtain h1 where
    u: "Client_Unsubscribe c h = Inr h1" and cc: "chan_state_of h1 c = Some Closed"
    and fr: "\<And>c'. c' \<noteq> c \<Longrightarrow> map_of h1 c' = map_of h c'"
    by blast
  let ?t1 = "tp\<lparr>clients := AList.delete c (clients tp)\<rparr>"
  from u have step: "Topic_Unsubscribe tp c h = Inr (?t1, h1)"
    by (simp add: Topic_Unsubscribe_client_effect)
  from Cons.prems have d: "distinct cs" and nc: "c \<notin> set cs" by simp_all
  have "\<forall>c' \<in> set cs. chan_state_of h1 c' = Some Open"
  proof
    fix c' assume a: "c' \<in> set cs"
    with nc have "c' \<noteq> c" by auto
    from fr [OF this] Cons.prems(2) a show "chan_state_of h1 c' = Some Open"
      by (simp add: chan_state_of_def)
  qed
  from Cons.IH [OF d this, of ?t1] obtain tp' h' where
    r: "Topic_Destroy_loop cs ?t1 h1 = Inr (tp', h')" and nm: "name tp' = name ?t1"
    and cl: "\<forall>c \<in> set cs. chan_state_of h' c = Some Closed"
    and fr2: "\<And>c'. c' \<notin> set cs \<Longrightarrow> map_of h' c' = map_of h1 c'"
    by blast
  from fr2 [OF nc] cc have "chan_state_of h' c = Some Closed"
    by (simp add: chan_state_of_def)
  moreover have "map_of h' c' = map_of h c'" if "c' \<notin> set (c # cs)" for c'
    using that fr2 [of c'] fr [of c'] by simp
  ultimately show ?case
    using step r nm cl by simp
qed

lemma destroyTopic_open:
  assumes "distinct (map fst (clients tp))"
    and "\<forall>c \<in> fst ` set (clients tp). chan_state_of (store s) c = Some Open"
  shows "\<exists>s'. destroyTopic tp s = Inr s'
           \<and> topics s' = AList.delete (name tp) (topics s)
           \<and> clientConnected s' = clientConnected s
           \<and> clientDisconnected s' = clientDisconnected s
           \<and> serverShutdown s' = serverShutdown s
           \<and> lastMessageId s' = lastMessageId s
           \<and> (\<forall>c \<in> fst ` set (clients tp). chan_state_of (store s') c = Some Closed)
           \<and> (\<forall>c. c \<notin> fst ` set (clients tp) \<longrightarrow> map_of (store s') c = map_of (store s) c)"
proof -
  from assms have "\<forall>c \<in> set (map fst (clients tp)). chan_state_of (store s) c = Some Open"
    by simp
  from Topic_Destroy_loop_open [OF assms(1) this, of tp] obtain tp' h' where
    "Topic_Destroy_loop (map fst (clients tp)) tp (store s) = Inr (tp', h')"
    "\<forall>c \<in> set (map fst (clients tp)). chan_state_of h' c = Some Closed"
    "\<forall>c. c \<notin> set (map fst (clients tp)) \<longrightarrow> map_of h' c = map_of (store s) c"
    by blast
  then show ?thesis
    by (simp add: destroyTopic_def Topic_Destroy_def Printf_def)
qed

lemma set_delete: "set (AList.delete k al) = {p \<in> set al. fst p \<noteq> k}"
  by (auto simp: AList.delete_eq)

lemma destroyTopics_loop_open:
  assumes "distinct (concat (map (\<lambda>tp. map fst (clients tp)) tps))"
    and "\<forall>tp \<in> set tps. \<forall>c \<in> fst ` set (clients tp). chan_state_of (store s) c = Some Open"
  shows "\<exists>s'. destroyTopics_loop tps s = Inr s'
           \<and> set (topics s') = {p \<in> set (topics s). fst p \<notin> name ` set tps}
           \<and> clientConnected s' = clientConnected s
           \<and> clientDisconnected s' = clientDisconnected s
           \<and> serverShutdown s' = serverShutdown s
           \<and> lastMessageId s' = lastMessageId s
           \<and> (\<forall>tp \<in> set tps. \<forall>c \<in> fst ` set (clients tp). chan_state_of (store s') c = Some Closed)
           \<and> (\<forall>c. c \<notin> (\<Union>tp \<in> set tps. fst ` set (clients tp)) \<longrightarrow>
                  map_of (store s') c = map_of (store s) c)"
  using assms
proof (induction tps arbitrary: s)
  case Nil
  then show ?case by simp
next
  case (Cons tp tps)
  from Cons.prems(1) have d1: "distinct (map fst (clients tp))"
    and d2: "distinct (concat (map (\<lambda>tp. map fst (clients tp)) tps))"
    and dj: "\<And>tq c. tq \<in> set tps \<Longrightarrow> c \<in> fst ` set (clients tq) \<Longrightarrow> c \<notin> fst ` set (clients tp)"
    by auto
  from Cons.prems(2) have o1: "\<forall>c \<in> fst ` set (clients tp). chan_state_of (store s) c = Some Open"
    by simp
  from destroyTopic_open [OF d1 o1] obtain s1 where
    st: "destroyTopic tp s = Inr s1"
    and t1: "topics s1 = AList.delete (name tp) (topics s)"
    and f1: "clientConnected s1 = clientConnected s" "clientDisconnected s1 = clientDisconnected s"
      "serverShutdown s1 = serverShutdown s" "lastMessageId s1 = lastMessageId s"
    and c1: "\<forall>c \<in> fst ` set (clients tp). chan_state_of (store s1) c = Some Closed"
    and u1: "\<And>c. c \<notin> fst ` set (clients tp) \<Longrightarrow> map_of (store s1) c = map_of (store s) c"
    by blast
  have o2: "\<forall>tq \<in> set tps. \<forall>c \<in> fst ` set (clients tq). chan_state_of (store s1) c = Some Open"
  proof (intro ballI)
    fix tq c assume a: "tq \<in> set tps" "c \<in> fst ` set (clients tq)"
    from Cons.prems(2) a have "chan_state_of (store s) c = Some Open" by auto
    with u1 [OF dj [OF a]] show "chan_state_of (store s1) c = Some Open"
      by (simp add: chan_state_of_def)
  qed
  from Cons.IH [OF d2 o2] obtain s' where
    r: "destroyTopics_loop tps s1 = Inr s'"
    and t2: "set (topics s') = {p \<in> set (topics s1). fst p \<notin> name ` set tps}"
    and f2: "clientConnected s' = clientConnected s1" "clientDisconnected s' = clientDisconnected s1"
      "serverShutdown s' = serverShutdown s1" "lastMessageId s' = lastMessageId s1"
    and c2: "\<forall>tq \<in> set tps. \<forall>c \<in> fst ` set (clients tq). chan_state_of (store s') c = Some Closed"
    and u2: "\<And>c. c \<notin> (\<Union>tq \<in> set tps. fst ` set (clients tq)) \<Longrightarrow>
                  map_of (store s') c = map_of (store s1) c"
    by blast
  have run: "destroyTopics_loop (tp # tps) s = Inr s'"
    using st r by simp
  have tops: "set (topics s') = {p \<in> set (topics s). fst p \<notin> name ` set (tp # tps)}"
    using t2 t1 by (auto simp: set_delete)
  have cl: "\<forall>tq \<in> set (tp # tps). \<forall>c \<in> fst ` set (clients tq). chan_state_of (store s') c = Some Closed"
  proof (intro ballI)
    fix tq c assume a: "tq \<in> set (tp # tps)" "c \<in> fst ` set (clients tq)"
    show "chan_state_of (store s') c = Some Closed"
    proof (cases "tq \<in> set tps")
      case True
      with c2 a show ?thesis by blast
    next
      case False
      with a have e: "tq = tp" by simp
      show ?thesis
      proof (cases "c \<in> (\<Union>tq \<in> set tps. fst ` set (clients tq))")
        case True
        with c2 show ?thesis by blast
      next
        case False
        from c1 a e have "chan_state_of (store s1) c = Some Closed" by auto
        with u2 [OF False] show ?thesis by (simp add: chan_state_of_def)
      qed
    qed
  qed
  have un: "map_of (store s') c = map_of (store s) c"
    if "c \<notin> (\<Union>tq \<in> set (tp # tps). fst ` set (clients tq))" for c
  proof -
    from that have "c \<notin> (\<Union>tq \<in> set tps. fst ` set (clients tq))" "c \<notin> fst ` set (clients tp)"
      by auto
    from u2 [OF this(1)] u1 [OF this(2)] show ?thesis by simp
  qed
  from run tops f1 f2 cl un show ?case by auto
qed

lemma destroyTopics_open:
  assumes names: "\<forall>(n, tp) \<in> set (topics s). name tp = n"
    and dist: "distinct (all_subscribers s)"
    and opn: "\<forall>c \<in> set (all_subscribers s). chan_state_of (store s) c = Some Open"
  shows "\<exists>s'. destroyTopics s = Inr s' \<and> topics s' = []
           \<and> clientConnected s' = clientConnected s
           \<and> clientDisconnected s' = clientDisconnected s
           \<and> serverShutdown s' = serverShutdown s
           \<and> lastMessageId s' = lastMessageId s
           \<and> (\<forall>c \<in> set (all_subscribers s). chan_state_of (store s') c = Some Closed)
           \<and> (\<forall>c. c \<notin> set (all_subscribers s) \<longrightarrow> map_of (store s') c = map_of (store s) c)"
proof -
  let ?tps = "map snd (topics s)"
  have subs: "set (all_subscribers s) = (\<Union>tp \<in> set ?tps. fst ` set (clients tp))"
    by (auto simp: all_subscribers_def) force+
  have "concat (map (\<lambda>tp. map fst (clients tp)) ?tps) = all_subscribers s"
    by (simp add: all_subscribers_def comp_def case_prod_unfold)
  with dist have d: "distinct (concat (map (\<lambda>tp. map fst (clients tp)) ?tps))" by simp
  from opn subs
  have o: "\<forall>tp \<in> set ?tps. \<forall>c \<in> fst ` set (clients tp). chan_state_of (store s) c = Some Open"
    by blast
  from destroyTopics_loop_open [OF d o] obtain s' where
    r: "destroyTopics_loop ?tps s = Inr s'"
    and t: "set (topics s') = {p \<in> set (topics s). fst p \<notin> name ` set ?tps}"
    and f: "clientConnected s' = clientConnected s" "clientDisconnected s' = clientDisconnected s"
      "serverShutdown s' = serverShutdown s" "lastMessageId s' = lastMessageId s"
    and c: "\<forall>tp \<in> set ?tps. \<forall>c \<in> fst ` set (clients tp). chan_state_of (store s') c = Some Closed"
    and u: "\<forall>c. c \<notin> (\<Union>tp \<in> set ?tps. fst ` set (clients tp)) \<longrightarrow>
                  map_of (store s') c = map_of (store s) c"
    by blast
  have e: "{p \<in> set (topics s). fst p \<notin> name ` set ?tps} = {}"
  proof -
    have "fst p \<in> name ` set ?tps" if "p \<in> set (topics s)" for p
    proof -
      from names that have "name (snd p) = fst p" by (cases p) auto
      with that show ?thesis by force
    qed
    then show ?thesis by blast
  qed
  have "set (topics s') = {}" by (simp only: t e)
  then have "topics s' = []" by simp
  with r f c u subs show ?thesis
    by (simp add: destroyTopics_def)
qed

text \<open>
  C9, as the code has it. On a running server whose topics sit under their own names and
  whose subscribers are distinct clients with open channels (what connecting fresh clients
  gives), \<^verbatim>\<open>Shutdown\<close> returns, the registry is empty afterwards, the channel of every
  subscriber is closed and no other client is touched, and the three channels of the event
  loop are closed. After that a publish is ignored in both publish paths: it returns, the
  registry stays empty and the clients are untouched (\<^verbatim>\<open>handlePostMessage\<close> still uses
  up an id). A connect is not rejected: the send on the closed \<^verbatim>\<open>clientConnected\<close>
  channel panics in the handler of the request.
\<close>

theorem Shutdown_destroys_topics:
  assumes names: "\<forall>(n, tp) \<in> set (topics s). name tp = n"
    and dist: "distinct (all_subscribers s)"
    and opn: "\<forall>c \<in> set (all_subscribers s). chan_state_of (store s) c = Some Open"
    and running: "clientConnected s = Open" "clientDisconnected s = Open" "serverShutdown s = Open"
  shows "\<exists>s'. Shutdown s = Inr s' \<and> topics s' = []
           \<and> (\<forall>c \<in> set (all_subscribers s). chan_state_of (store s') c = Some Closed)
           \<and> (\<forall>c. c \<notin> set (all_subscribers s) \<longrightarrow> map_of (store s') c = map_of (store s) c)
           \<and> clientConnected s' = Closed \<and> clientDisconnected s' = Closed
           \<and> serverShutdown s' = Closed
           \<and> (\<forall>n body. n \<noteq> [] \<longrightarrow>
                 (\<exists>s''. handlePostMessage n body s' = Inr (NoContent (lastMessageId s + 1), s'')
                    \<and> topics s'' = [] \<and> store s'' = store s'))
           \<and> (\<forall>n body. \<exists>s''. sendMessageToTopic n body s' = Inr (None, s'')
                    \<and> topics s'' = [] \<and> store s'' = store s')
           \<and> (\<forall>c. send_clientConnected c s' = Inl SendOnClosedChannel)"
proof -
  from destroyTopics_open [OF names dist opn] obtain s1 where
    r: "destroyTopics s = Inr s1" and t: "topics s1 = []"
    and f: "clientConnected s1 = clientConnected s" "clientDisconnected s1 = clientDisconnected s"
      "serverShutdown s1 = serverShutdown s" "lastMessageId s1 = lastMessageId s"
    and c: "\<forall>c \<in> set (all_subscribers s). chan_state_of (store s1) c = Some Closed"
    and u: "\<forall>c. c \<notin> set (all_subscribers s) \<longrightarrow> map_of (store s1) c = map_of (store s) c"
    by blast
  define s' where "s' = Printf ''server stopped.''
      (s1\<lparr>clientConnected := Closed, clientDisconnected := Closed, serverShutdown := Closed\<rparr>)"
  from r f running have run: "Shutdown s = Inr s'"
    by (simp add: Shutdown_def onServerShutdown_def close_chan_def s'_def)
  have p: "topics s' = []" "store s' = store s1" "clientConnected s' = Closed"
    "clientDisconnected s' = Closed" "serverShutdown s' = Closed" "lastMessageId s' = lastMessageId s"
    using t f by (simp_all add: s'_def Printf_def)
  have none: "getTopic s' n = None" for n
    using p(1) by (simp add: getTopic_def)
  have post: "\<exists>s''. handlePostMessage n body s' = Inr (NoContent (lastMessageId s + 1), s'')
                    \<and> topics s'' = [] \<and> store s'' = store s'" if "n \<noteq> []" for n body
    using handlePostMessage_absent [OF that none, of body] p by simp
  have proc: "\<exists>s''. sendMessageToTopic n body s' = Inr (None, s'')
                    \<and> topics s'' = [] \<and> store s'' = store s'" for n body
    using sendMessageToTopic_absent [OF none, of n body] p by simp
  have conn: "send_clientConnected c s' = Inl SendOnClosedChannel" for c
    using p by (simp add: send_clientConnected_def)
  from run p c u post proc conn show ?thesis
    by (intro exI [of _ s']) simp
qed

theorem Shutdown_destroys_topics_witness:
  "map_sum id (\<lambda>s. (topics s, chan_state_of (store s) 1, clientConnected s))
     (Shutdown (NewServer\<lparr>topics := [(''news'', \<lparr>name = ''news'', clients = [(1, True)]\<rparr>)],
                          store := [(1, fresh_client ''news'')]\<rparr>))
   = Inr ([], Some Closed, Closed)"
proof -
  let ?s = "NewServer\<lparr>topics := [(''news'', \<lparr>name = ''news'', clients = [(1, True)]\<rparr>)],
                          store := [(1, fresh_client ''news'')]\<rparr>"
  have names: "\<forall>(n, tp) \<in> set (topics ?s). name tp = n" by simp
  have dist: "distinct (all_subscribers ?s)" by (simp add: all_subscribers_def)
  have opn: "\<forall>c \<in> set (all_subscribers ?s). chan_state_of (store ?s) c = Some Open"
    by (simp add: all_subscribers_def chan_state_of_def fresh_client_def)
  have running: "clientConnected ?s = Open" "clientDisconnected ?s = Open" "serverShutdown ?s = Open"
    by (simp_all add: NewServer_def)
  from Shutdown_destroys_topics [OF names dist opn running] obtain s' where
    "Shutdown ?s = Inr s'" "topics s' = []"
    "\<forall>c \<in> set (all_subscribers ?s). chan_state_of (store s') c = Some Closed"
    "clientConnected s' = Closed"
    by blast
  then show ?thesis by (simp add: all_subscribers_def)
qed

text \<open>
  C9 as the specification words it: a connect after the shutdown of a new server is
  neither rejected nor ignored, it panics.
\<close>

theorem Connect_after_Shutdown_counterexample:
  "Shutdown (NewServer\<lparr>store := [(1, fresh_client ''news'')]\<rparr>)
     = Inr (NewServer\<lparr>clientConnected := Closed, clientDisconnected := Closed,
              serverShutdown := Closed, logger := [''server stopped.''],
              store := [(1, fresh_client ''news'')]\<rparr>)
   \<and> send_clientConnected 1
       (NewServer\<lparr>clientConnected := Closed, clientDisconnected := Closed,
              serverShutdown := Closed, logger := [''server stopped.''],
              store := [(1, fresh_client ''news'')]\<rparr>)
     = Inl SendOnClosedChannel"
  by (simp add: Shutdown_def onServerShutdown_def destroyTopics_def close_chan_def Printf_def
        send_clientConnected_def NewServer_def)

section \<open>The timeout notification\<close>

lemma Itoa_30: "Itoa 30 = ''30''"
  by (simp add: Itoa_def Itoa_nat.simps)

text \<open>
  What \<^verbatim>\<open>onClientTimeout\<close> does once the clock reading has been rounded to 30 seconds,
  for a client whose channel is open: the client receives one message with the event
  \<^verbatim>\<open>timeout\<close>, the payload \<^verbatim>\<open>30s\<close> and a newly generated id, and then the handler of a
  disconnect runs.
\<close>

lemma onClientTimeout_30:
  assumes cl: "map_of (store s) c = Some cl" and opn: "state (messages cl) = Open"
    and running: "clientDisconnected s = Open"
  shows "onClientTimeout 30 c s =
     onClientDisconnected c
       (s\<lparr>lastMessageId := lastMessageId s + 1,
          store := AList.update c
            (cl\<lparr>messages := (messages cl)\<lparr>received := received (messages cl) @
                [\<lparr>id' = Itoa (sint (lastMessageId s + 1)), data = ''30s'', event = ''timeout''\<rparr>]\<rparr>\<rparr>)
            (store s)\<rparr>)"
  using assms
  by (simp add: onClientTimeout_def generateMessageId_def Client_SendMessage_def
        send_clientDisconnected_def TimeoutMessage_def NewMessage_def Itoa_30)

end
